theory Spec2Isabelle
  imports Main "HOL-Library.AList" "HOL-Library.Char_ord" "HOL-Library.List_Lexorder"
begin

section \<open>prune-ami-snapshots: the data\<close>

text \<open>
  The script \<^verbatim>\<open>deploy/bin/prune-ami-snapshots.py\<close> (Python 2.7) lists the EBS snapshots
  of an account region by region, recovers from each snapshot's description the AMI it
  was made for, and reports (and optionally deletes) the snapshots whose AMI is no
  longer registered.

  Strings are \<open>string\<close>, Python's integers are \<open>int\<close>, the results of \<^verbatim>\<open>len\<close> are
  \<open>nat\<close>. A \<^verbatim>\<open>dict\<close> is an association list with one entry per key, written with
  \<open>AList.update\<close> and read with \<open>map_of\<close>, so that \<^verbatim>\<open>items()\<close>,
  \<^verbatim>\<open>keys()\<close> and \<^verbatim>\<open>values()\<close> can be enumerated; a Python \<^verbatim>\<open>set\<close> is a HOL set.
  Of the responses of the EC2 API only the fields the script reads are kept.
\<close>

record datetime =
  year :: nat
  month :: nat
  day :: nat

record snapshot =
  SnapshotId :: string
  Description :: string
  VolumeSize :: int
  StartTime :: datetime

record image =
  ImageId :: string

text \<open>
  An exception is a value: a failed request to AWS (boto raises it, the script
  never catches it), or the \<^verbatim>\<open>KeyError\<close> of a subscript \<^verbatim>\<open>d[k]\<close> on a missing key.
\<close>

datatype error = ApiError string | KeyError string

datatype api_call =
    GetCallerIdentity
  | DescribeSnapshots string string
  | DescribeImages string
  | DeleteSnapshot string string

text \<open>
  The account as the script sees it: the region names of the session, and what each
  request answers. The region names are distinct and the script sends every request at
  most once for given arguments, so
  an answer is a function of the arguments. \<open>ec2_delete_snapshot\<close> answers \<open>None\<close>
  when the deletion succeeded and the exception otherwise.
\<close>

record aws =
  available_regions :: "string list"
  sts_get_caller_identity :: "error + string"
  ec2_describe_snapshots :: "string \<Rightarrow> string \<Rightarrow> error + snapshot list"
  ec2_describe_images :: "string \<Rightarrow> error + image list"
  ec2_delete_snapshot :: "string \<Rightarrow> string \<Rightarrow> error option"

text \<open>
  What \<^verbatim>\<open>orphaned_ami_snapshots\<close> returns: the dictionary
  \<^verbatim>\<open>{'region': region, 'empty': True}\<close>, or the dictionary of the nine entries.
\<close>

record region_result =
  region :: string
  ami_count :: nat
  snapshot_count :: nat
  snapshot_to_ami :: "(string \<times> string) list"
  snapshots :: "(string \<times> snapshot) list"
  snapshots_size :: int
  snapshots_ami_size :: int
  orphaned_snapshots :: "string set"
  orphaned_size :: int

datatype scan_result = EmptyRegion string | RegionResult region_result

section \<open>The two description patterns\<close>

text \<open>
  \<^verbatim>\<open>RE_CREATED_AMI = re.compile('Created by CreateImage\([^\)]+\) for (?P<ami>[^\s+]+)')\<close>
  \<^verbatim>\<open>RE_COPIED_AMI = re.compile('Copied for DestinationAmi (?P<ami>[^\s+]+)')\<close>

  Both are used with \<^verbatim>\<open>match\<close>, which anchors the pattern at the start of the
  description and allows any text after it. Neither pattern is compiled with a flag, so
  \<^verbatim>\<open>\s\<close> is the six ASCII white space characters; inside a class \<^verbatim>\<open>+\<close> is the
  plus sign itself. A repetition \<^verbatim>\<open>[...]+\<close> is greedy. In \<^verbatim>\<open>[^\)]+\)\<close> every
  shorter repetition is followed by a character that is not a closing parenthesis, and
  after the group \<^verbatim>\<open>ami\<close> the pattern ends, so backtracking never finds a match the
  longest repetition does not give: \<open>many1\<close> takes the longest run and wants it
  non-empty. The functions return \<^verbatim>\<open>m.group('ami')\<close>, or \<open>None\<close> where \<^verbatim>\<open>match\<close>
  returns \<^verbatim>\<open>None\<close>.
\<close>

definition is_space :: "char \<Rightarrow> bool" where
  "is_space c = (c \<in> set [CHR '' '', CHR 0x09, CHR 0x0A, CHR 0x0B, CHR 0x0C, CHR 0x0D])"

definition ami_char :: "char \<Rightarrow> bool" where
  "ami_char c = (\<not> is_space c \<and> c \<noteq> CHR ''+'')"

definition not_rparen :: "char \<Rightarrow> bool" where
  "not_rparen c = (c \<noteq> CHR '')'')"

fun literal :: "string \<Rightarrow> string \<Rightarrow> string option" where
  "literal [] s = Some s"
| "literal (p # ps) [] = None"
| "literal (p # ps) (c # cs) = (if p = c then literal ps cs else None)"

definition many1 :: "(char \<Rightarrow> bool) \<Rightarrow> string \<Rightarrow> (string \<times> string) option" where
  "many1 P s = (if takeWhile P s = [] then None else Some (takeWhile P s, dropWhile P s))"

definition RE_CREATED_AMI :: "string \<Rightarrow> string option" where
  "RE_CREATED_AMI d =
     (case literal ''Created by CreateImage('' d of
        None \<Rightarrow> None
      | Some r1 \<Rightarrow>
          (case many1 not_rparen r1 of
             None \<Rightarrow> None
           | Some (inst, r2) \<Rightarrow>
               (case literal '') for '' r2 of
                  None \<Rightarrow> None
                | Some r3 \<Rightarrow>
                    (case many1 ami_char r3 of
                       None \<Rightarrow> None
                     | Some (ami, r4) \<Rightarrow> Some ami))))"

definition RE_COPIED_AMI :: "string \<Rightarrow> string option" where
  "RE_COPIED_AMI d =
     (case literal ''Copied for DestinationAmi '' d of
        None \<Rightarrow> None
      | Some r1 \<Rightarrow>
          (case many1 ami_char r1 of
             None \<Rightarrow> None
           | Some (ami, r2) \<Rightarrow> Some ami))"

section \<open>The scanner\<close>

text \<open>
  \<^verbatim>\<open>d[k]\<close> on a dictionary raises \<^verbatim>\<open>KeyError\<close> when the key is missing.
\<close>

definition getitem :: "(string \<times> 'v) list \<Rightarrow> string \<Rightarrow> error + 'v" where
  "getitem d k = (case map_of d k of None \<Rightarrow> Inl (KeyError k) | Some v \<Rightarrow> Inr v)"

text \<open>
  The body of the loop over the snapshots (lines 40 to 52), on the pair of
  \<^verbatim>\<open>snapshot_to_ami\<close> and \<^verbatim>\<open>snapshots_by_id\<close>: the snapshot is filed under its
  id, then each pattern that matches stores its group under the same id, the second
  over the first.
\<close>

definition record_created :: "snapshot \<Rightarrow> (string \<times> string) list \<Rightarrow> (string \<times> string) list" where
  "record_created snapshot to_ami =
     (case RE_CREATED_AMI (Description snapshot) of
        Some ami \<Rightarrow> AList.update (SnapshotId snapshot) ami to_ami
      | None \<Rightarrow> to_ami)"

definition record_copied :: "snapshot \<Rightarrow> (string \<times> string) list \<Rightarrow> (string \<times> string) list" where
  "record_copied snapshot to_ami =
     (case RE_COPIED_AMI (Description snapshot) of
        Some ami \<Rightarrow> AList.update (SnapshotId snapshot) ami to_ami
      | None \<Rightarrow> to_ami)"

definition index_snapshot ::
  "snapshot \<Rightarrow> (string \<times> string) list \<times> (string \<times> snapshot) list
    \<Rightarrow> (string \<times> string) list \<times> (string \<times> snapshot) list" where
  "index_snapshot snapshot st =
     (case st of (to_ami, by_id) \<Rightarrow>
        (record_copied snapshot (record_created snapshot to_ami),
         AList.update (SnapshotId snapshot) snapshot by_id))"

text \<open>
  \<^verbatim>\<open>sum(snapshots_by_id[sid]['VolumeSize'] for sid in sids)\<close>: the subscripts are
  evaluated one after the other, and the first missing key raises.
\<close>

fun sum_sizes :: "(string \<times> snapshot) list \<Rightarrow> string list \<Rightarrow> error + int" where
  "sum_sizes by_id [] = Inr 0"
| "sum_sizes by_id (sid # sids) =
     (case getitem by_id sid of
        Inl e \<Rightarrow> Inl e
      | Inr s \<Rightarrow>
          (case sum_sizes by_id sids of
             Inl e \<Rightarrow> Inl e
           | Inr n \<Rightarrow> Inr (VolumeSize s + n)))"

text \<open>
  Lines 33 to 71, once both listings are there. Python iterates over the set
  \<^verbatim>\<open>orphaned_snapshots\<close> in an order of its own; the sum does not depend on it, and
  the model takes the ascending one.
\<close>

definition region_report :: "string \<Rightarrow> snapshot list \<Rightarrow> image list \<Rightarrow> error + scan_result" where
  "region_report rgn snaps images =
     (let amis = fold (\<lambda>image amis. insert (ImageId image) amis) images {};
          (to_ami, by_id) = fold index_snapshot snaps ([], []);
          unknown_amis = set (map snd to_ami) - amis;
          orphaned = set [sid. (sid, ami) \<leftarrow> to_ami, ami \<in> unknown_amis]
      in case sum_sizes by_id (sorted_list_of_set orphaned) of
           Inl e \<Rightarrow> Inl e
         | Inr osize \<Rightarrow>
             (case sum_sizes by_id (map fst to_ami) of
                Inl e \<Rightarrow> Inl e
              | Inr asize \<Rightarrow>
                  Inr (RegionResult
                    \<lparr>region = rgn,
                     ami_count = length images,
                     snapshot_count = length snaps,
                     snapshot_to_ami = to_ami,
                     snapshots = by_id,
                     snapshots_size = sum_list (map VolumeSize snaps),
                     snapshots_ami_size = asize,
                     orphaned_snapshots = orphaned,
                     orphaned_size = osize\<rparr>)))"

text \<open>
  \<^verbatim>\<open>orphaned_ami_snapshots(region, owner_id)\<close>: the requests it sends, in order, and
  what it returns or raises.
\<close>

definition orphaned_ami_snapshots ::
  "aws \<Rightarrow> string \<Rightarrow> string \<Rightarrow> api_call list \<times> (error + scan_result)" where
  "orphaned_ami_snapshots ec2 rgn owner_id =
     (case ec2_describe_snapshots ec2 rgn owner_id of
        Inl e \<Rightarrow> ([DescribeSnapshots rgn owner_id], Inl e)
      | Inr snaps \<Rightarrow>
          if snaps = [] then ([DescribeSnapshots rgn owner_id], Inr (EmptyRegion rgn))
          else
            (case ec2_describe_images ec2 rgn of
               Inl e \<Rightarrow> ([DescribeSnapshots rgn owner_id, DescribeImages rgn], Inl e)
             | Inr images \<Rightarrow>
                 ([DescribeSnapshots rgn owner_id, DescribeImages rgn],
                  region_report rgn snaps images)))"

section \<open>The report and the deletions\<close>

text \<open>
  \<^verbatim>\<open>'%d' % n\<close> for an integer, and \<^verbatim>\<open>date().isoformat()\<close> of a \<^verbatim>\<open>datetime\<close>
  (year, month and day in four, two and two digits).
\<close>

fun nat_digits :: "nat \<Rightarrow> string" where
  "nat_digits n =
     (if n < 10 then [''0123456789'' ! n]
      else nat_digits (n div 10) @ [''0123456789'' ! (n mod 10)])"

declare nat_digits.simps [simp del]

definition fmt_d :: "int \<Rightarrow> string" where
  "fmt_d n = (if n < 0 then CHR ''-'' # nat_digits (nat (- n)) else nat_digits (nat n))"

definition zero_padded :: "nat \<Rightarrow> nat \<Rightarrow> string" where
  "zero_padded w n = replicate (w - length (nat_digits n)) CHR ''0'' @ nat_digits n"

definition isoformat :: "datetime \<Rightarrow> string" where
  "isoformat d =
     zero_padded 4 (year d) @ ''-'' @ zero_padded 2 (month d) @ ''-'' @ zero_padded 2 (day d)"

text \<open>
  The variables of \<^verbatim>\<open>main\<close>, with what it has printed (one entry for each
  \<^verbatim>\<open>print\<close>, without the line break that \<^verbatim>\<open>print\<close> adds) and the requests it has
  sent. A step returns the variables and the exception it raised, if any.
\<close>

record run =
  results :: "region_result list"
  total_size :: int
  total_orphaned_size :: int
  total_orphaned_snapshots :: nat
  stdout :: "string list"
  requests :: "api_call list"

text \<open>
  Lines 117 to 122, the listing that \<^verbatim>\<open>--print-orphans\<close> asks for: the lines
  printed for the ids, and the \<^verbatim>\<open>KeyError\<close> of \<^verbatim>\<open>res['snapshots'][snap_id]\<close> if
  an id is missing.
\<close>

fun print_orphan_lines ::
  "(string \<times> snapshot) list \<Rightarrow> string list \<Rightarrow> string list \<times> error option" where
  "print_orphan_lines by_id [] = ([], None)"
| "print_orphan_lines by_id (snap_id # rest) =
     (case getitem by_id snap_id of
        Inl e \<Rightarrow> ([], Some e)
      | Inr snapshot \<Rightarrow>
          (case print_orphan_lines by_id rest of
             (ls, e) \<Rightarrow>
               ((''    '' @ snap_id @ '': ('' @ isoformat (StartTime snapshot) @ '') ''
                   @ Description snapshot) # ls, e)))"

definition region_lines :: "region_result \<Rightarrow> string list" where
  "region_lines res =
     [region res @ '':'',
      fmt_d (int (ami_count res)) @ CHR 0x09 # ''AMIs'',
      fmt_d (int (length (snapshots res))) @ CHR 0x09 # ''Snapshots'',
      fmt_d (snapshots_size res) @ CHR 0x09 # ''GB Total snapshot storage'',
      fmt_d (int (length (snapshot_to_ami res))) @ CHR 0x09 # ''AMI snapshots'',
      fmt_d (snapshots_ami_size res) @ CHR 0x09 # ''GB Total AMI snapshot storage'',
      fmt_d (int (card (orphaned_snapshots res))) @ CHR 0x09 # ''Orphaned AMI snapshots'',
      fmt_d (orphaned_size res) @ CHR 0x09 # ''GB Orphaned AMI snapshot storage'',
      []]"

text \<open>
  The body of the loop over the futures (lines 96 to 122). \<^verbatim>\<open>f.result()\<close> raises
  what the scan of the region raised.
\<close>

definition process_result :: "bool \<Rightarrow> error + scan_result \<Rightarrow> run \<Rightarrow> run \<times> error option" where
  "process_result print_orphans f st =
     (case f of
        Inl e \<Rightarrow> (st, Some e)
      | Inr (EmptyRegion rgn) \<Rightarrow>
          (st\<lparr>stdout := stdout st @ [rgn @ '' has no snapshots; ignoring'' @ [CHR 0x0A]]\<rparr>, None)
      | Inr (RegionResult res) \<Rightarrow>
          (let st1 = st\<lparr>results := results st @ [res],
                        total_size := total_size st + snapshots_ami_size res,
                        total_orphaned_size := total_orphaned_size st + orphaned_size res,
                        total_orphaned_snapshots :=
                          total_orphaned_snapshots st + card (orphaned_snapshots res),
                        stdout := stdout st @ region_lines res\<rparr>
           in if print_orphans then
                (case print_orphan_lines (snapshots res)
                        (sorted_list_of_set (orphaned_snapshots res)) of
                   (ls, e) \<Rightarrow> (st1\<lparr>stdout := stdout st1 @ ls\<rparr>, e))
              else (st1, None)))"

fun process_results :: "bool \<Rightarrow> (error + scan_result) list \<Rightarrow> run \<Rightarrow> run \<times> error option" where
  "process_results print_orphans [] st = (st, None)"
| "process_results print_orphans (f # fs) st =
     (case process_result print_orphans f st of
        (st', Some e) \<Rightarrow> (st', Some e)
      | (st', None) \<Rightarrow> process_results print_orphans fs st')"

text \<open>
  \<^verbatim>\<open>delete_snapshot(ec2, snap_id)\<close> (lines 74 to 76) inside the loop of lines 138
  and 139: the line is printed, the request is sent, and an exception of the request
  leaves the loop. The client's own retries of a request are inside the request.
\<close>

fun delete_snapshots :: "aws \<Rightarrow> string \<Rightarrow> string list \<Rightarrow> run \<Rightarrow> run \<times> error option" where
  "delete_snapshots ec2 rgn [] st = (st, None)"
| "delete_snapshots ec2 rgn (snap_id # rest) st =
     (let st1 = st\<lparr>stdout := stdout st @ [''deleting '' @ snap_id],
                   requests := requests st @ [DeleteSnapshot rgn snap_id]\<rparr>
      in case ec2_delete_snapshot ec2 rgn snap_id of
           Some e \<Rightarrow> (st1, Some e)
         | None \<Rightarrow> delete_snapshots ec2 rgn rest st1)"

text \<open>
  The loop over \<^verbatim>\<open>results\<close> under \<^verbatim>\<open>if delete:\<close> (lines 125 to 139). Making the
  client of the region and raising its retry limit (lines 132 and 133) send no request
  and leave no trace here.
\<close>

fun delete_orphans :: "aws \<Rightarrow> region_result list \<Rightarrow> run \<Rightarrow> run \<times> error option" where
  "delete_orphans ec2 [] st = (st, None)"
| "delete_orphans ec2 (res # rest) st =
     (if orphaned_snapshots res = {} then delete_orphans ec2 rest st
      else
        (let st1 = st\<lparr>stdout := stdout st @
                      [''deleting '' @ fmt_d (int (card (orphaned_snapshots res)))
                         @ '' snapshots from '' @ region res]\<rparr>
         in case delete_snapshots ec2 (region res)
                   (sorted_list_of_set (orphaned_snapshots res)) st1 of
              (st2, Some e) \<Rightarrow> (st2, Some e)
            | (st2, None) \<Rightarrow> delete_orphans ec2 rest st2))"

text \<open>
  \<^verbatim>\<open>main(delete, print_orphans)\<close>. The six workers of the pool run the scans of the
  regions side by side; each scan reads nothing the others write, and the pool is left
  only when all of them are done, so the requests of the scans are listed region by
  region. The results are read in the order of the regions.

  \<^verbatim>\<open>total_cost = 0.022 * 12 * total_orphaned_size\<close> is a product of double-precision
  floating-point numbers, printed with \<^verbatim>\<open>'$%d'\<close>; \<open>cost_d n\<close> stands for the text of
  \<^verbatim>\<open>'%d' % (0.022 * 12 * n)\<close> and is left open.
\<close>

definition summary_lines :: "(int \<Rightarrow> string) \<Rightarrow> run \<Rightarrow> string list" where
  "summary_lines cost_d st =
     [[],
      fmt_d (total_size st) @ CHR 0x09 # ''GB Total snapshot storage'',
      fmt_d (int (total_orphaned_snapshots st)) @ CHR 0x09 # ''Total orphaned AMI snapshots'',
      fmt_d (total_orphaned_size st) @ CHR 0x09 # ''GB Total orphaned snapshot storage'',
      ''$'' @ cost_d (total_orphaned_size st) @ CHR 0x09 # ''Estimated annual storage cost'']"

definition main :: "aws \<Rightarrow> (int \<Rightarrow> string) \<Rightarrow> bool \<Rightarrow> bool \<Rightarrow> run \<times> error option" where
  "main ec2 cost_d delete print_orphans =
     (let regions = available_regions ec2;
          st0 = \<lparr>results = [], total_size = 0, total_orphaned_size = 0,
                 total_orphaned_snapshots = 0, stdout = [], requests = [GetCallerIdentity]\<rparr>
      in case sts_get_caller_identity ec2 of
           Inl e \<Rightarrow> (st0, Some e)
         | Inr owner_id \<Rightarrow>
             (let fs = map (\<lambda>rgn. orphaned_ami_snapshots ec2 rgn owner_id) regions;
                  st1 = st0\<lparr>requests := requests st0 @ concat (map fst fs)\<rparr>
              in case process_results print_orphans (map snd fs) st1 of
                   (st2, Some e) \<Rightarrow> (st2, Some e)
                 | (st2, None) \<Rightarrow>
                     (case (if delete then delete_orphans ec2 (results st2) st2
                            else (st2, None)) of
                        (st3, Some e) \<Rightarrow> (st3, Some e)
                      | (st3, None) \<Rightarrow>
                          (st3\<lparr>stdout := stdout st3 @ summary_lines cost_d st3\<rparr>, None))))"

section \<open>Notions of the specification, and an account to run the script on\<close>

text \<open>
  The image id that the two patterns recover from a description, the second pattern
  over the first as in the loop.
\<close>

definition inferred_ami :: "string \<Rightarrow> string option" where
  "inferred_ami d =
     (case RE_COPIED_AMI d of Some ami \<Rightarrow> Some ami | None \<Rightarrow> RE_CREATED_AMI d)"

text \<open>
  The two dictionaries when the loop over the snapshots is done, and the set of
  snapshot ids whose recorded image id is not among the images of the region.
\<close>

definition ami_index :: "snapshot list \<Rightarrow> (string \<times> string) list" where
  "ami_index snaps = fst (fold index_snapshot snaps ([], []))"

definition id_index :: "snapshot list \<Rightarrow> (string \<times> snapshot) list" where
  "id_index snaps = snd (fold index_snapshot snaps ([], []))"

definition orphans_of :: "snapshot list \<Rightarrow> image list \<Rightarrow> string set" where
  "orphans_of snaps images =
     {sid. \<exists>ami. map_of (ami_index snaps) sid = Some ami \<and> ami \<notin> ImageId ` set images}"

text \<open>
  The deletions that a list of region results asks for: region by region in the order
  of the list, the orphaned ids of a region in ascending order.
\<close>

definition planned_deletes :: "region_result list \<Rightarrow> api_call list" where
  "planned_deletes ress =
     concat (map (\<lambda>res. map (DeleteSnapshot (region res))
                            (sorted_list_of_set (orphaned_snapshots res))) ress)"

definition delete_fails :: "aws \<Rightarrow> api_call \<Rightarrow> error option" where
  "delete_fails ec2 c =
     (case c of DeleteSnapshot rgn snap_id \<Rightarrow> ec2_delete_snapshot ec2 rgn snap_id
      | _ \<Rightarrow> None)"

text \<open>
  The region results that the loop over the futures keeps: those of the regions that
  have snapshots, in the order of the regions.
\<close>

definition nonempty_results :: "(error + scan_result) list \<Rightarrow> region_result list" where
  "nonempty_results fs =
     concat (map (\<lambda>f. case f of Inr (RegionResult res) \<Rightarrow> [res] | _ \<Rightarrow> []) fs)"

text \<open>
  The lines that the deletions of a list of region results print when every request
  succeeds: nothing for a region without orphaned snapshots.
\<close>

definition delete_lines :: "region_result list \<Rightarrow> string list" where
  "delete_lines ress =
     concat (map (\<lambda>res.
        if orphaned_snapshots res = {} then []
        else (''deleting '' @ fmt_d (int (card (orphaned_snapshots res)))
                @ '' snapshots from '' @ region res)
             # map (\<lambda>snap_id. ''deleting '' @ snap_id)
                 (sorted_list_of_set (orphaned_snapshots res))) ress)"

text \<open>
  Sending planned requests one after the other until one is refused: the requests
  sent, and the exception of the refused one.
\<close>

fun attempt :: "aws \<Rightarrow> api_call list \<Rightarrow> api_call list \<times> error option" where
  "attempt ec2 [] = ([], None)"
| "attempt ec2 (c # cs) =
     (case delete_fails ec2 c of
        Some e \<Rightarrow> ([c], Some e)
      | None \<Rightarrow> (case attempt ec2 cs of (sent, e) \<Rightarrow> (c # sent, e)))"

text \<open>
  The requests of the scans of all regions, the results of the scans, and the
  variables of \<^verbatim>\<open>main\<close> when the loop over the futures starts.
\<close>

definition scan_requests :: "aws \<Rightarrow> string \<Rightarrow> api_call list" where
  "scan_requests ec2 owner_id =
     concat (map (\<lambda>rgn. fst (orphaned_ami_snapshots ec2 rgn owner_id)) (available_regions ec2))"

definition scan_results :: "aws \<Rightarrow> string \<Rightarrow> (error + scan_result) list" where
  "scan_results ec2 owner_id =
     map (\<lambda>rgn. snd (orphaned_ami_snapshots ec2 rgn owner_id)) (available_regions ec2)"

definition scanned :: "aws \<Rightarrow> string \<Rightarrow> run" where
  "scanned ec2 owner_id =
     \<lparr>results = [], total_size = 0, total_orphaned_size = 0, total_orphaned_snapshots = 0,
      stdout = [], requests = GetCallerIdentity # scan_requests ec2 owner_id\<rparr>"

text \<open>
  An account with four regions: one without snapshots, one with two orphaned snapshots
  among four, one with no orphaned snapshot and one with a single orphaned snapshot.
\<close>

definition example_snapshot :: "string \<Rightarrow> string \<Rightarrow> int \<Rightarrow> snapshot" where
  "example_snapshot snap_id d n =
     \<lparr>SnapshotId = snap_id, Description = d, VolumeSize = n,
      StartTime = \<lparr>year = 2017, month = 3, day = 9\<rparr>\<rparr>"

definition east_snapshots :: "snapshot list" where
  "east_snapshots =
     [example_snapshot ''snap-0b'' ''Created by CreateImage(i-123) for ami-0001'' 8,
      example_snapshot ''snap-0a'' ''Copied for DestinationAmi ami-0003 from us-west-2'' 30,
      example_snapshot ''snap-0c'' ''manual backup'' 100,
      example_snapshot ''snap-0d'' ''Created by CreateImage(i-456) for ami-0002'' 16]"

definition example_images :: "image list" where
  "example_images = [\<lparr>ImageId = ''ami-0002''\<rparr>, \<lparr>ImageId = ''ami-0009''\<rparr>]"

definition example_account :: aws where
  "example_account =
     \<lparr>available_regions = [''eu-west-1'', ''us-east-1'', ''us-west-1'', ''us-west-2''],
      sts_get_caller_identity = Inr ''123456789012'',
      ec2_describe_snapshots = (\<lambda>rgn owner_id.
         if rgn = ''us-east-1'' then Inr east_snapshots
         else if rgn = ''us-west-1'' then
           Inr [example_snapshot ''snap-1a'' ''Created by CreateImage(i-789) for ami-0002'' 20]
         else if rgn = ''us-west-2'' then
           Inr [example_snapshot ''snap-2a'' ''Created by CreateImage(i-789) for ami-0005'' 5]
         else Inr []),
      ec2_describe_images = (\<lambda>rgn. Inr example_images),
      ec2_delete_snapshot = (\<lambda>rgn snap_id. None)\<rparr>"

text \<open>What the scan of \<^verbatim>\<open>us-east-1\<close> returns in this account.\<close>

definition east_result :: region_result where
  "east_result =
     \<lparr>region = ''us-east-1'', ami_count = 2, snapshot_count = 4,
      snapshot_to_ami =
        [(''snap-0b'', ''ami-0001''), (''snap-0a'', ''ami-0003''), (''snap-0d'', ''ami-0002'')],
      snapshots = map (\<lambda>s. (SnapshotId s, s)) east_snapshots,
      snapshots_size = 154, snapshots_ami_size = 54,
      orphaned_snapshots = {''snap-0a'', ''snap-0b''},
      orphaned_size = 38\<rparr>"

text \<open>The same account when the deletion of \<^verbatim>\<open>snap-0b\<close> is refused.\<close>

definition refusing_account :: aws where
  "refusing_account =
     example_account\<lparr>ec2_delete_snapshot :=
       (\<lambda>rgn snap_id. if snap_id = ''snap-0b'' then Some (ApiError ''RequestLimitExceeded'')
                        else None)\<rparr>"

definition example_cost :: "int \<Rightarrow> string" where
  "example_cost n = fmt_d (264 * n div 1000)"

section \<open>The patterns\<close>

lemma literal_Some_iff: "literal p s = Some r \<longleftrightarrow> s = p @ r"
  by (induction p s rule: literal.induct) auto

lemma RE_CREATED_AMI_prefix:
  "RE_CREATED_AMI d = Some a \<Longrightarrow> \<exists>r. d = ''Created by CreateImage('' @ r"
  unfolding RE_CREATED_AMI_def
  by (auto simp: literal_Some_iff split: option.splits)

lemma RE_COPIED_AMI_prefix:
  "RE_COPIED_AMI d = Some a \<Longrightarrow> \<exists>r. d = ''Copied for DestinationAmi '' @ r"
  unfolding RE_COPIED_AMI_def
  by (auto simp: literal_Some_iff split: option.splits)

lemma patterns_disjoint: "RE_CREATED_AMI d = None \<or> RE_COPIED_AMI d = None"
proof (rule ccontr)
  assume "\<not> ?thesis"
  then obtain a b where "RE_CREATED_AMI d = Some a" "RE_COPIED_AMI d = Some b"
    by auto
  then obtain r r' where
    "d = ''Created by CreateImage('' @ r" "d = ''Copied for DestinationAmi '' @ r'"
    using RE_CREATED_AMI_prefix RE_COPIED_AMI_prefix by blast
  then show False by simp
qed

text \<open>
  C6. No description is matched by both patterns: the first needs the description to
  start with \<^verbatim>\<open>Cr\<close>, the second with \<^verbatim>\<open>Co\<close>. So the two assignments of the loop
  body to \<^verbatim>\<open>snapshot_to_ami\<close> can be made in either order, on any dictionary.
\<close>

theorem patterns_mutually_exclusive:
  "(RE_CREATED_AMI d = None \<or> RE_COPIED_AMI d = None) \<and>
   record_copied s (record_created s to_ami) = record_created s (record_copied s to_ami)"
  using patterns_disjoint [of "Description s"] patterns_disjoint [of d]
  by (auto simp: record_copied_def record_created_def split: option.splits)

section \<open>The loop over the snapshots\<close>

lemma to_ami_step:
  "map_of (record_copied s (record_created s m)) =
     (case inferred_ami (Description s) of
        None \<Rightarrow> map_of m
      | Some a \<Rightarrow> (map_of m)(SnapshotId s \<mapsto> a))"
  by (simp add: record_copied_def record_created_def inferred_ami_def update_conv'
           split: option.splits)

lemma to_ami_step_keys:
  "fst ` set (record_copied s (record_created s m)) =
     (case inferred_ami (Description s) of
        None \<Rightarrow> fst ` set m
      | Some a \<Rightarrow> insert (SnapshotId s) (fst ` set m))"
  by (auto simp: record_copied_def record_created_def inferred_ami_def dom_update
           split: option.splits)

lemma to_ami_step_distinct:
  "distinct (map fst m) \<Longrightarrow> distinct (map fst (record_copied s (record_created s m)))"
  by (simp add: record_copied_def record_created_def distinct_update split: option.splits)

lemma fst_fold_index:
  "fst (fold index_snapshot snaps acc) =
     fold (\<lambda>s m. record_copied s (record_created s m)) snaps (fst acc)"
  by (induction snaps arbitrary: acc) (simp_all add: index_snapshot_def split: prod.splits)

lemma snd_fold_index:
  "snd (fold index_snapshot snaps acc) =
     fold (\<lambda>s b. AList.update (SnapshotId s) s b) snaps (snd acc)"
  by (induction snaps arbitrary: acc) (simp_all add: index_snapshot_def split: prod.splits)

lemma to_ami_fold_distinct:
  "distinct (map fst m) \<Longrightarrow>
   distinct (map fst (fold (\<lambda>s m. record_copied s (record_created s m)) snaps m))"
  by (induction snaps arbitrary: m) (simp_all add: to_ami_step_distinct)

lemma to_ami_fold_origin:
  "map_of (fold (\<lambda>s m. record_copied s (record_created s m)) snaps m) sid = Some a \<Longrightarrow>
   map_of m sid = Some a \<or>
   (\<exists>s \<in> set snaps. SnapshotId s = sid \<and> inferred_ami (Description s) = Some a)"
proof (induction snaps arbitrary: m)
  case Nil
  then show ?case by simp
next
  case (Cons x xs)
  from Cons.IH [of "record_copied x (record_created x m)"] Cons.prems
  show ?case
    by (auto simp: to_ami_step split: option.splits if_splits)
qed

lemma to_ami_fold_other:
  "sid \<notin> SnapshotId ` set snaps \<Longrightarrow>
   map_of (fold (\<lambda>s m. record_copied s (record_created s m)) snaps m) sid = map_of m sid"
  by (induction snaps arbitrary: m) (auto simp: to_ami_step split: option.splits)

lemma to_ami_fold_unique:
  "s \<in> set snaps \<Longrightarrow> distinct (map SnapshotId snaps) \<Longrightarrow>
   map_of (fold (\<lambda>s m. record_copied s (record_created s m)) snaps m) (SnapshotId s) =
     (case inferred_ami (Description s) of
        None \<Rightarrow> map_of m (SnapshotId s)
      | Some a \<Rightarrow> Some a)"
proof (induction snaps arbitrary: m)
  case Nil
  then show ?case by simp
next
  case (Cons x xs)
  show ?case
  proof (cases "s = x")
    case True
    with Cons.prems have "SnapshotId s \<notin> SnapshotId ` set xs" by auto
    then show ?thesis
      using True by (simp add: to_ami_fold_other to_ami_step split: option.splits)
  next
    case False
    with Cons.prems have in_xs: "s \<in> set xs" and d: "distinct (map SnapshotId xs)"
      and ne: "SnapshotId x \<noteq> SnapshotId s" by auto
    from Cons.IH [OF in_xs d, of "record_copied x (record_created x m)"] ne
    show ?thesis
      by (simp add: to_ami_step split: option.splits)
  qed
qed

lemma by_id_fold_keys:
  "fst ` set (fold (\<lambda>s b. AList.update (SnapshotId s) s b) snaps b) =
     fst ` set b \<union> SnapshotId ` set snaps"
  by (induction snaps arbitrary: b) (auto simp: dom_update)

lemma to_ami_fold_keys:
  "fst ` set (fold (\<lambda>s m. record_copied s (record_created s m)) snaps m)
     \<subseteq> fst ` set m \<union> SnapshotId ` set snaps"
proof (induction snaps arbitrary: m)
  case Nil
  then show ?case by simp
next
  case (Cons x xs)
  from Cons.IH [of "record_copied x (record_created x m)"]
  show ?case
    by (auto simp: to_ami_step_keys split: option.splits)
qed

lemma by_id_fold_distinct:
  "distinct (map fst b) \<Longrightarrow>
   distinct (map fst (fold (\<lambda>s b. AList.update (SnapshotId s) s b) snaps b))"
  by (induction snaps arbitrary: b) (simp_all add: distinct_update)

lemma by_id_fold_origin:
  "map_of (fold (\<lambda>s b. AList.update (SnapshotId s) s b) snaps b) sid = Some s \<Longrightarrow>
   map_of b sid = Some s \<or> (s \<in> set snaps \<and> SnapshotId s = sid)"
proof (induction snaps arbitrary: b)
  case Nil
  then show ?case by simp
next
  case (Cons x xs)
  from Cons.IH [of "AList.update (SnapshotId x) x b"] Cons.prems
  show ?case
    by (auto simp: update_conv' split: if_splits)
qed

lemma by_id_fold_unique:
  "s \<in> set snaps \<Longrightarrow> distinct (map SnapshotId snaps) \<Longrightarrow>
   map_of (fold (\<lambda>s b. AList.update (SnapshotId s) s b) snaps b) (SnapshotId s) = Some s"
proof (induction snaps arbitrary: b)
  case Nil
  then show ?case by simp
next
  case (Cons x xs)
  show ?case
  proof (cases "s = x")
    case True
    with Cons.prems have notin: "SnapshotId s \<notin> SnapshotId ` set xs" by auto
    have "\<And>b. map_of (fold (\<lambda>s b. AList.update (SnapshotId s) s b) xs b) (SnapshotId s)
               = map_of b (SnapshotId s)"
      using notin by (induction xs) (auto simp: update_conv')
    then show ?thesis using True by (simp add: update_conv')
  next
    case False
    with Cons.prems show ?thesis by (auto intro: Cons.IH)
  qed
qed

section \<open>The result of a scan\<close>

lemma fold_index_pair: "fold index_snapshot snaps ([], []) = (ami_index snaps, id_index snaps)"
  by (simp add: ami_index_def id_index_def)

lemma ami_index_distinct: "distinct (map fst (ami_index snaps))"
  by (simp add: ami_index_def fst_fold_index to_ami_fold_distinct)

lemma id_index_distinct: "distinct (map fst (id_index snaps))"
  by (simp add: id_index_def snd_fold_index by_id_fold_distinct)

lemma id_index_keys: "fst ` set (id_index snaps) = SnapshotId ` set snaps"
  by (simp add: id_index_def snd_fold_index by_id_fold_keys)

lemma ami_index_keys: "fst ` set (ami_index snaps) \<subseteq> fst ` set (id_index snaps)"
  using to_ami_fold_keys [of snaps "[]"]
  by (simp add: id_index_keys) (simp add: ami_index_def fst_fold_index)

lemma ami_index_origin:
  "map_of (ami_index snaps) sid = Some a \<Longrightarrow>
   \<exists>s \<in> set snaps. SnapshotId s = sid \<and> inferred_ami (Description s) = Some a"
  using to_ami_fold_origin [of snaps "[]" sid a] by (simp add: ami_index_def fst_fold_index)

lemma ami_index_unique:
  "s \<in> set snaps \<Longrightarrow> distinct (map SnapshotId snaps) \<Longrightarrow>
   map_of (ami_index snaps) (SnapshotId s) = inferred_ami (Description s)"
  using to_ami_fold_unique [of s snaps "[]"]
  by (simp add: ami_index_def fst_fold_index split: option.splits)

lemma id_index_origin:
  "map_of (id_index snaps) sid = Some s \<Longrightarrow> s \<in> set snaps \<and> SnapshotId s = sid"
  using by_id_fold_origin [of snaps "[]" sid s] by (simp add: id_index_def snd_fold_index)

lemma id_index_unique:
  "s \<in> set snaps \<Longrightarrow> distinct (map SnapshotId snaps) \<Longrightarrow>
   map_of (id_index snaps) (SnapshotId s) = Some s"
  using by_id_fold_unique [of s snaps "[]"] by (simp add: id_index_def snd_fold_index)

lemma sum_sizes_ok:
  "set ks \<subseteq> fst ` set by_id \<Longrightarrow>
   sum_sizes by_id ks = Inr (\<Sum>k\<leftarrow>ks. VolumeSize (the (map_of by_id k)))"
proof (induction ks)
  case Nil
  then show ?case by simp
next
  case (Cons k ks)
  then obtain s where "map_of by_id k = Some s"
    by (cases "map_of by_id k") (auto simp: map_of_eq_None_iff)
  with Cons show ?case by (simp add: getitem_def)
qed

lemma fold_insert_ImageId:
  "fold (\<lambda>image amis. insert (ImageId image) amis) images A = ImageId ` set images \<union> A"
  by (induction images arbitrary: A) auto

lemma orphans_comprehension:
  "set [sid. (sid, ami) \<leftarrow> ami_index snaps,
             ami \<in> set (map snd (ami_index snaps)) - ImageId ` set images]
     = orphans_of snaps images"
  using ami_index_distinct [of snaps]
  by (force simp: orphans_of_def)

lemma orphans_subset: "orphans_of snaps images \<subseteq> fst ` set (ami_index snaps)"
  by (auto simp: orphans_of_def dest: map_of_SomeD intro: rev_image_eqI)

lemma finite_orphans: "finite (orphans_of snaps images)"
  using orphans_subset by (rule finite_subset) simp

lemma region_report_ok:
  "region_report rgn snaps images =
     Inr (RegionResult
       \<lparr>region = rgn,
        ami_count = length images,
        snapshot_count = length snaps,
        snapshot_to_ami = ami_index snaps,
        snapshots = id_index snaps,
        snapshots_size = sum_list (map VolumeSize snaps),
        snapshots_ami_size =
          (\<Sum>k\<leftarrow>map fst (ami_index snaps). VolumeSize (the (map_of (id_index snaps) k))),
        orphaned_snapshots = orphans_of snaps images,
        orphaned_size =
          (\<Sum>k\<in>orphans_of snaps images. VolumeSize (the (map_of (id_index snaps) k)))\<rparr>)"
proof -
  have a: "set (map fst (ami_index snaps)) \<subseteq> fst ` set (id_index snaps)"
    using ami_index_keys by simp
  have o: "set (sorted_list_of_set (orphans_of snaps images)) \<subseteq> fst ` set (id_index snaps)"
    using orphans_subset ami_index_keys finite_orphans by fastforce
  have s: "(\<Sum>k\<leftarrow>sorted_list_of_set (orphans_of snaps images).
              VolumeSize (the (map_of (id_index snaps) k)))
           = (\<Sum>k\<in>orphans_of snaps images. VolumeSize (the (map_of (id_index snaps) k)))"
    using finite_orphans [of snaps images]
    by (simp add: sum_list_distinct_conv_sum_set)
  have f: "fold (\<lambda>image amis. insert (ImageId image) amis) images {} = ImageId ` set images"
    by (simp add: fold_insert_ImageId)
  show ?thesis
    unfolding region_report_def Let_def f fold_index_pair prod.case orphans_comprehension
      sum_sizes_ok [OF a] sum_sizes_ok [OF o] s
    by simp
qed

lemma scan_nonempty:
  assumes "ec2_describe_snapshots ec2 rgn owner_id = Inr snaps" and "snaps \<noteq> []"
    and "ec2_describe_images ec2 rgn = Inr images"
  shows "orphaned_ami_snapshots ec2 rgn owner_id =
           ([DescribeSnapshots rgn owner_id, DescribeImages rgn], region_report rgn snaps images)"
  using assms by (simp add: orphaned_ami_snapshots_def)

lemma created_example:
  "inferred_ami ''Created by CreateImage(i-123) for ami-0001'' = Some ''ami-0001''"
  by (simp add: inferred_ami_def RE_CREATED_AMI_def RE_COPIED_AMI_def many1_def not_rparen_def
        ami_char_def is_space_def)

lemma copied_example:
  "inferred_ami (''Copied for DestinationAmi ami-0003 from '' @ rest) = Some ''ami-0003''"
  by (simp add: inferred_ami_def RE_COPIED_AMI_def many1_def ami_char_def is_space_def)

lemma orphans_unique:
  assumes "s \<in> set snaps" and "distinct (map SnapshotId snaps)"
  shows "SnapshotId s \<in> orphans_of snaps images \<longleftrightarrow>
           (\<exists>ami. inferred_ami (Description s) = Some ami \<and> ami \<notin> ImageId ` set images)"
  by (simp add: orphans_of_def ami_index_unique [OF assms])

lemma alist_sum_values:
  "distinct (map fst al) \<Longrightarrow>
   (\<Sum>k\<in>fst ` set al. g (the (map_of al k))) = (\<Sum>(k, v)\<leftarrow>al. g v)"
proof (induction al)
  case Nil
  then show ?case by simp
next
  case (Cons p al)
  obtain k v where p: "p = (k, v)" by (cases p)
  from Cons.prems p have notin: "k \<notin> fst ` set al" and d: "distinct (map fst al)"
    by auto
  have "(\<Sum>k'\<in>fst ` set al. g (the (map_of (p # al) k'))) =
        (\<Sum>k'\<in>fst ` set al. g (the (map_of al k')))"
    using notin p by (intro sum.cong) auto
  with notin Cons.IH [OF d] show ?case
    by (simp add: p)
qed

lemma update_sum_le:
  fixes g :: "'v \<Rightarrow> int"
  assumes "\<forall>(k', v') \<in> set al. 0 \<le> g v'"
  shows "(\<Sum>(k', v')\<leftarrow>AList.update k v al. g v') \<le> (\<Sum>(k', v')\<leftarrow>al. g v') + g v"
  using assms by (induction al) auto

lemma update_values:
  "(k', v') \<in> set (AList.update k v al) \<Longrightarrow> (k', v') \<in> set al \<or> v' = v"
  by (induction al) (auto split: if_splits)

lemma by_id_fold_sum_le:
  assumes "\<forall>(k, v) \<in> set b. 0 \<le> VolumeSize v" and "\<forall>s \<in> set snaps. 0 \<le> VolumeSize s"
  shows "(\<Sum>(k, v)\<leftarrow>fold (\<lambda>s b. AList.update (SnapshotId s) s b) snaps b. VolumeSize v)
           \<le> (\<Sum>(k, v)\<leftarrow>b. VolumeSize v) + sum_list (map VolumeSize snaps)"
  using assms
proof (induction snaps arbitrary: b)
  case Nil
  then show ?case by simp
next
  case (Cons x xs)
  let ?b = "AList.update (SnapshotId x) x b"
  have nn: "\<forall>(k, v) \<in> set ?b. 0 \<le> VolumeSize v"
    using Cons.prems by (auto dest: update_values)
  have "(\<Sum>(k, v)\<leftarrow>fold (\<lambda>s b. AList.update (SnapshotId s) s b) xs ?b. VolumeSize v)
          \<le> (\<Sum>(k, v)\<leftarrow>?b. VolumeSize v) + sum_list (map VolumeSize xs)"
    using Cons.IH [OF nn] Cons.prems(2) by simp
  also have "(\<Sum>(k, v)\<leftarrow>?b. VolumeSize v) \<le> (\<Sum>(k, v)\<leftarrow>b. VolumeSize v) + VolumeSize x"
    using update_sum_le [of b VolumeSize "SnapshotId x" x] Cons.prems(1) by simp
  finally show ?case by simp
qed

lemma id_index_sum_le:
  assumes "\<forall>s \<in> set snaps. 0 \<le> VolumeSize s"
  shows "(\<Sum>k\<in>fst ` set (id_index snaps). VolumeSize (the (map_of (id_index snaps) k)))
           \<le> sum_list (map VolumeSize snaps)"
  using by_id_fold_sum_le [of "[]" snaps] assms
  by (simp add: alist_sum_values [OF id_index_distinct]) (simp add: id_index_def snd_fold_index)

lemma id_index_value_nonneg:
  assumes "\<forall>s \<in> set snaps. 0 \<le> VolumeSize s" and "k \<in> fst ` set (id_index snaps)"
  shows "0 \<le> VolumeSize (the (map_of (id_index snaps) k))"
proof -
  from assms(2) obtain s where "map_of (id_index snaps) k = Some s"
    by (cases "map_of (id_index snaps) k") (auto simp: map_of_eq_None_iff)
  with id_index_origin [of snaps k s] assms(1) show ?thesis by simp
qed

lemma ami_size_as_sum:
  "(\<Sum>k\<leftarrow>map fst (ami_index snaps). VolumeSize (the (map_of (id_index snaps) k)))
     = (\<Sum>k\<in>fst ` set (ami_index snaps). VolumeSize (the (map_of (id_index snaps) k)))"
  using ami_index_distinct [of snaps]
  by (simp add: sum_list_distinct_conv_sum_set del: map_map)

lemma size_chain:
  assumes "\<forall>s \<in> set snaps. 0 \<le> VolumeSize s"
  shows "(\<Sum>k\<in>orphans_of snaps images. VolumeSize (the (map_of (id_index snaps) k)))
           \<le> (\<Sum>k\<leftarrow>map fst (ami_index snaps). VolumeSize (the (map_of (id_index snaps) k)))"
    and "(\<Sum>k\<leftarrow>map fst (ami_index snaps). VolumeSize (the (map_of (id_index snaps) k)))
           \<le> sum_list (map VolumeSize snaps)"
proof -
  let ?f = "\<lambda>k. VolumeSize (the (map_of (id_index snaps) k))"
  have nn: "\<And>k. k \<in> fst ` set (id_index snaps) \<Longrightarrow> 0 \<le> ?f k"
    using id_index_value_nonneg [OF assms] by blast
  have nn': "\<And>k. k \<in> fst ` set (ami_index snaps) \<Longrightarrow> 0 \<le> ?f k"
    using nn ami_index_keys [of snaps] by (meson subsetD)
  have "sum ?f (orphans_of snaps images) \<le> sum ?f (fst ` set (ami_index snaps))"
  proof (rule sum_mono2)
    show "finite (fst ` set (ami_index snaps))" by simp
    show "orphans_of snaps images \<subseteq> fst ` set (ami_index snaps)" by (rule orphans_subset)
    show "\<And>b. b \<in> fst ` set (ami_index snaps) - orphans_of snaps images \<Longrightarrow> 0 \<le> ?f b"
      using nn' by simp
  qed
  then show "sum ?f (orphans_of snaps images) \<le> (\<Sum>k\<leftarrow>map fst (ami_index snaps). ?f k)"
    by (simp only: ami_size_as_sum)
  have "sum ?f (fst ` set (ami_index snaps)) \<le> sum ?f (fst ` set (id_index snaps))"
  proof (rule sum_mono2)
    show "finite (fst ` set (id_index snaps))" by simp
    show "fst ` set (ami_index snaps) \<subseteq> fst ` set (id_index snaps)" by (rule ami_index_keys)
    show "\<And>b. b \<in> fst ` set (id_index snaps) - fst ` set (ami_index snaps) \<Longrightarrow> 0 \<le> ?f b"
      using nn by simp
  qed
  also have "\<dots> \<le> sum_list (map VolumeSize snaps)"
    by (rule id_index_sum_le [OF assms])
  finally show "(\<Sum>k\<leftarrow>map fst (ami_index snaps). ?f k) \<le> sum_list (map VolumeSize snaps)"
    by (simp only: ami_size_as_sum)
qed

lemma print_orphan_lines_ok:
  "set ks \<subseteq> fst ` set by_id \<Longrightarrow> snd (print_orphan_lines by_id ks) = None"
proof (induction ks)
  case Nil
  then show ?case by simp
next
  case (Cons k ks)
  then obtain s where "map_of by_id k = Some s"
    by (cases "map_of by_id k") (auto simp: map_of_eq_None_iff)
  with Cons show ?case
    by (cases "print_orphan_lines by_id ks") (simp add: getitem_def)
qed

lemma orphans_size_unique:
  assumes "distinct (map SnapshotId snaps)"
  shows "(\<Sum>k\<in>orphans_of snaps images. VolumeSize (the (map_of (id_index snaps) k)))
           = sum_list (map VolumeSize [s\<leftarrow>snaps. SnapshotId s \<in> orphans_of snaps images])"
proof -
  let ?O = "orphans_of snaps images"
  let ?S = "{s \<in> set snaps. SnapshotId s \<in> ?O}"
  have inj: "inj_on SnapshotId ?S"
    using assms by (auto simp: inj_on_def distinct_map)
  have sub: "?O \<subseteq> SnapshotId ` set snaps"
  proof -
    have "?O \<subseteq> fst ` set (ami_index snaps)" by (rule orphans_subset)
    also have "\<dots> \<subseteq> fst ` set (id_index snaps)" by (rule ami_index_keys)
    finally show ?thesis by (simp only: id_index_keys)
  qed
  have img: "SnapshotId ` ?S = ?O"
  proof
    show "SnapshotId ` ?S \<subseteq> ?O" by auto
    show "?O \<subseteq> SnapshotId ` ?S"
    proof
      fix k
      assume k: "k \<in> ?O"
      with sub obtain s where "s \<in> set snaps" "SnapshotId s = k" by auto
      with k show "k \<in> SnapshotId ` ?S" by auto
    qed
  qed
  have "sum (\<lambda>k. VolumeSize (the (map_of (id_index snaps) k))) ?O
          = sum (\<lambda>s. VolumeSize (the (map_of (id_index snaps) (SnapshotId s)))) ?S"
    using sum.reindex [OF inj, of "\<lambda>k. VolumeSize (the (map_of (id_index snaps) k))"]
    by (simp add: img)
  also have "\<dots> = sum VolumeSize ?S"
    by (intro sum.cong) (auto simp: id_index_unique [OF _ assms])
  also have "\<dots> = sum_list (map VolumeSize [s\<leftarrow>snaps. SnapshotId s \<in> ?O])"
  proof -
    have "distinct [s\<leftarrow>snaps. SnapshotId s \<in> ?O]"
      using assms by (simp add: distinct_map)
    then show ?thesis
      by (simp add: sum_list_distinct_conv_sum_set)
  qed
  finally show ?thesis .
qed

section \<open>The example account\<close>

lemma example_hyps:
  "ec2_describe_snapshots example_account ''us-east-1'' ''123456789012'' = Inr east_snapshots"
  "east_snapshots \<noteq> []"
  "ec2_describe_images example_account ''us-east-1'' = Inr example_images"
  by (simp_all add: example_account_def east_snapshots_def)

lemma east_scan:
  "snd (orphaned_ami_snapshots example_account ''us-east-1'' ''123456789012'') =
    Inr (RegionResult east_result)"
  by code_simp

lemma east_distinct: "distinct (map SnapshotId east_snapshots)"
  by (simp add: east_snapshots_def example_snapshot_def)

section \<open>Properties of the scanner\<close>

text \<open>
  C1. In the result of the scan of a region that has snapshots, a snapshot id is in
  \<^verbatim>\<open>orphaned_snapshots\<close> exactly when \<^verbatim>\<open>snapshot_to_ami\<close> has an image id for it and
  that image id is not the id of an image of the region. For a snapshot of a listing with
  unique ids whose description is \<^verbatim>\<open>Created by CreateImage(i-123) for ami-0001\<close>, the
  id is orphaned exactly when \<^verbatim>\<open>ami-0001\<close> is not among the images; likewise for
  \<^verbatim>\<open>Copied for DestinationAmi ami-0003 from ...\<close> and \<^verbatim>\<open>ami-0003\<close>
\<close>

theorem orphaned_iff_ami_unknown:
  assumes "ec2_describe_snapshots ec2 rgn owner_id = Inr snaps" and "snaps \<noteq> []"
    and "ec2_describe_images ec2 rgn = Inr images"
  shows "\<exists>res. snd (orphaned_ami_snapshots ec2 rgn owner_id) = Inr (RegionResult res) \<and>
     (\<forall>sid. sid \<in> orphaned_snapshots res \<longleftrightarrow>
        (\<exists>ami. map_of (snapshot_to_ami res) sid = Some ami \<and> ami \<notin> ImageId ` set images)) \<and>
     (\<forall>s. s \<in> set snaps \<and> distinct (map SnapshotId snaps) \<and>
          Description s = ''Created by CreateImage(i-123) for ami-0001'' \<longrightarrow>
          (SnapshotId s \<in> orphaned_snapshots res \<longleftrightarrow> ''ami-0001'' \<notin> ImageId ` set images)) \<and>
     (\<forall>s rest. s \<in> set snaps \<and> distinct (map SnapshotId snaps) \<and>
          Description s = ''Copied for DestinationAmi ami-0003 from '' @ rest \<longrightarrow>
          (SnapshotId s \<in> orphaned_snapshots res \<longleftrightarrow> ''ami-0003'' \<notin> ImageId ` set images))"
proof -
  let ?O = "orphans_of snaps images"
  have 1: "\<forall>sid. sid \<in> ?O \<longleftrightarrow>
        (\<exists>ami. map_of (ami_index snaps) sid = Some ami \<and> ami \<notin> ImageId ` set images)"
    by (simp add: orphans_of_def)
  have 2: "\<forall>s. s \<in> set snaps \<and> distinct (map SnapshotId snaps) \<and>
          Description s = ''Created by CreateImage(i-123) for ami-0001'' \<longrightarrow>
          (SnapshotId s \<in> ?O \<longleftrightarrow> ''ami-0001'' \<notin> ImageId ` set images)"
    using created_example by (auto simp: orphans_unique simp del: set_map)
  have 3: "\<forall>s rest. s \<in> set snaps \<and> distinct (map SnapshotId snaps) \<and>
          Description s = ''Copied for DestinationAmi ami-0003 from '' @ rest \<longrightarrow>
          (SnapshotId s \<in> ?O \<longleftrightarrow> ''ami-0003'' \<notin> ImageId ` set images)"
    using copied_example by (auto simp: orphans_unique simp del: set_map)
  show ?thesis
    unfolding scan_nonempty [OF assms] region_report_ok
    using 1 2 3 by simp
qed

theorem orphaned_iff_ami_unknown_witness:
  "ec2_describe_snapshots example_account ''us-east-1'' ''123456789012'' = Inr east_snapshots \<and>
   east_snapshots \<noteq> [] \<and>
   ec2_describe_images example_account ''us-east-1'' = Inr example_images \<and>
   (\<exists>res. snd (orphaned_ami_snapshots example_account ''us-east-1'' ''123456789012'')
            = Inr (RegionResult res) \<and>
          ''snap-0b'' \<in> orphaned_snapshots res \<and> ''snap-0d'' \<notin> orphaned_snapshots res)"
proof -
  from orphaned_iff_ami_unknown [OF example_hyps]
  obtain res where
    r: "snd (orphaned_ami_snapshots example_account ''us-east-1'' ''123456789012'')
          = Inr (RegionResult res)"
    and iff: "\<forall>sid. sid \<in> orphaned_snapshots res \<longleftrightarrow>
        (\<exists>ami. map_of (snapshot_to_ami res) sid = Some ami \<and> ami \<notin> ImageId ` set example_images)"
    by blast
  from r east_scan have "res = east_result"
    by simp
  then have m: "snapshot_to_ami res =
      [(''snap-0b'', ''ami-0001''), (''snap-0a'', ''ami-0003''), (''snap-0d'', ''ami-0002'')]"
    by (simp add: east_result_def)
  have "''snap-0b'' \<in> orphaned_snapshots res" "''snap-0d'' \<notin> orphaned_snapshots res"
    using iff m by (simp_all add: example_images_def)
  with r example_hyps show ?thesis by blast
qed

text \<open>
  C2. A snapshot of the listing (ids unique, as EC2 gives them) whose description is
  matched by neither pattern has its id neither among the keys of \<^verbatim>\<open>snapshot_to_ami\<close>
  nor in \<^verbatim>\<open>orphaned_snapshots\<close>, whatever the images of the region are; the loop body
  for such a snapshot leaves \<^verbatim>\<open>snapshot_to_ami\<close> as it was
\<close>

theorem unmatched_never_recorded:
  assumes "ec2_describe_snapshots ec2 rgn owner_id = Inr snaps" and "snaps \<noteq> []"
    and "ec2_describe_images ec2 rgn = Inr images"
    and "s \<in> set snaps" and "distinct (map SnapshotId snaps)"
    and "RE_CREATED_AMI (Description s) = None" and "RE_COPIED_AMI (Description s) = None"
  shows "\<exists>res. snd (orphaned_ami_snapshots ec2 rgn owner_id) = Inr (RegionResult res) \<and>
     SnapshotId s \<notin> fst ` set (snapshot_to_ami res) \<and>
     SnapshotId s \<notin> orphaned_snapshots res \<and>
     fst (index_snapshot s (to_ami, by_id)) = to_ami"
proof -
  have none: "inferred_ami (Description s) = None"
    using assms(6,7) by (simp add: inferred_ami_def)
  have m: "map_of (ami_index snaps) (SnapshotId s) = None"
    using ami_index_unique [OF assms(4,5)] none by simp
  then have k: "SnapshotId s \<notin> fst ` set (ami_index snaps)"
    by (simp add: map_of_eq_None_iff)
  have o: "SnapshotId s \<notin> orphans_of snaps images"
    using m by (simp add: orphans_of_def)
  have st: "fst (index_snapshot s (to_ami, by_id)) = to_ami"
    using assms(6,7) by (simp add: index_snapshot_def record_copied_def record_created_def)
  show ?thesis
    unfolding scan_nonempty [OF assms(1-3)] region_report_ok
    using k o st by simp
qed

theorem unmatched_never_recorded_witness:
  "ec2_describe_snapshots example_account ''us-east-1'' ''123456789012'' = Inr east_snapshots \<and>
   east_snapshots \<noteq> [] \<and>
   ec2_describe_images example_account ''us-east-1'' = Inr example_images \<and>
   example_snapshot ''snap-0c'' ''manual backup'' 100 \<in> set east_snapshots \<and>
   distinct (map SnapshotId east_snapshots) \<and>
   RE_CREATED_AMI ''manual backup'' = None \<and> RE_COPIED_AMI ''manual backup'' = None \<and>
   (\<exists>res. snd (orphaned_ami_snapshots example_account ''us-east-1'' ''123456789012'')
            = Inr (RegionResult res) \<and>
          ''snap-0c'' \<notin> fst ` set (snapshot_to_ami res) \<and>
          ''snap-0c'' \<notin> orphaned_snapshots res)"
proof -
  let ?s = "example_snapshot ''snap-0c'' ''manual backup'' 100"
  have a: "?s \<in> set east_snapshots"
    by (simp add: east_snapshots_def)
  have b: "RE_CREATED_AMI (Description ?s) = None" "RE_COPIED_AMI (Description ?s) = None"
    by (simp_all add: example_snapshot_def RE_CREATED_AMI_def RE_COPIED_AMI_def)
  from unmatched_never_recorded [OF example_hyps a east_distinct b, where to_ami = "[]" and by_id = "[]"]
  obtain res where
    r: "snd (orphaned_ami_snapshots example_account ''us-east-1'' ''123456789012'')
          = Inr (RegionResult res)"
    and k: "SnapshotId ?s \<notin> fst ` set (snapshot_to_ami res)"
      "SnapshotId ?s \<notin> orphaned_snapshots res"
    by blast
  from k have "''snap-0c'' \<notin> fst ` set (snapshot_to_ami res)"
    "''snap-0c'' \<notin> orphaned_snapshots res"
    by (simp_all add: example_snapshot_def)
  moreover from b have "RE_CREATED_AMI ''manual backup'' = None"
    "RE_COPIED_AMI ''manual backup'' = None"
    by (simp_all add: example_snapshot_def)
  ultimately show ?thesis
    using r example_hyps a east_distinct by blast
qed

text \<open>
  C3. \<^verbatim>\<open>orphaned_size\<close> is the sum of the \<^verbatim>\<open>VolumeSize\<close> of the snapshots
  filed under the ids of \<^verbatim>\<open>orphaned_snapshots\<close>, every one of which is filed; it is zero
  when the set is empty, and for a listing with unique ids it is the sum over exactly the
  listed snapshots whose id is in the set
\<close>

theorem orphaned_size_is_sum:
  assumes "ec2_describe_snapshots ec2 rgn owner_id = Inr snaps" and "snaps \<noteq> []"
    and "ec2_describe_images ec2 rgn = Inr images"
  shows "\<exists>res. snd (orphaned_ami_snapshots ec2 rgn owner_id) = Inr (RegionResult res) \<and>
     orphaned_snapshots res \<subseteq> fst ` set (snapshots res) \<and>
     orphaned_size res =
       (\<Sum>sid\<in>orphaned_snapshots res. VolumeSize (the (map_of (snapshots res) sid))) \<and>
     (orphaned_snapshots res = {} \<longrightarrow> orphaned_size res = 0) \<and>
     (distinct (map SnapshotId snaps) \<longrightarrow>
        orphaned_size res =
          sum_list (map VolumeSize [s\<leftarrow>snaps. SnapshotId s \<in> orphaned_snapshots res]))"
proof -
  have sub: "orphans_of snaps images \<subseteq> fst ` set (id_index snaps)"
    using orphans_subset [of snaps images] ami_index_keys [of snaps] by (rule subset_trans)
  show ?thesis
    unfolding scan_nonempty [OF assms] region_report_ok
    using sub orphans_size_unique [of snaps images]
    by (simp del: set_map)
qed

theorem orphaned_size_is_sum_witness:
  "ec2_describe_snapshots example_account ''us-east-1'' ''123456789012'' = Inr east_snapshots \<and>
   east_snapshots \<noteq> [] \<and>
   ec2_describe_images example_account ''us-east-1'' = Inr example_images \<and>
   distinct (map SnapshotId east_snapshots) \<and>
   (\<exists>res. snd (orphaned_ami_snapshots example_account ''us-east-1'' ''123456789012'')
            = Inr (RegionResult res) \<and>
          orphaned_snapshots res = {''snap-0a'', ''snap-0b''} \<and>
          orphaned_size res = 38 \<and>
          sum_list (map VolumeSize [s\<leftarrow>east_snapshots. SnapshotId s \<in> orphaned_snapshots res])
            = 38)"
proof -
  from orphaned_size_is_sum [OF example_hyps]
  obtain res where
    r: "snd (orphaned_ami_snapshots example_account ''us-east-1'' ''123456789012'')
          = Inr (RegionResult res)"
    and s: "distinct (map SnapshotId east_snapshots) \<longrightarrow> orphaned_size res =
       sum_list (map VolumeSize [s\<leftarrow>east_snapshots. SnapshotId s \<in> orphaned_snapshots res])"
    by blast
  from r east_scan have "res = east_result"
    by simp
  then have
    "orphaned_snapshots res = {''snap-0a'', ''snap-0b''}" "orphaned_size res = 38"
    by (simp_all add: east_result_def)
  with r s east_distinct example_hyps show ?thesis by auto
qed

text \<open>
  C4. When the listing of the snapshots of a region is empty, the scan sends that one
  request and no request for the images, and returns the region name with the empty
  marker, a value that has no other field
\<close>

theorem empty_region_short_circuit:
  assumes "ec2_describe_snapshots ec2 rgn owner_id = Inr []"
  shows "orphaned_ami_snapshots ec2 rgn owner_id =
           ([DescribeSnapshots rgn owner_id], Inr (EmptyRegion rgn)) \<and>
         (\<forall>r. DescribeImages r \<notin> set (fst (orphaned_ami_snapshots ec2 rgn owner_id)))"
  using assms by (simp add: orphaned_ami_snapshots_def)

theorem empty_region_short_circuit_witness:
  "ec2_describe_snapshots example_account ''eu-west-1'' ''123456789012'' = Inr [] \<and>
   orphaned_ami_snapshots example_account ''eu-west-1'' ''123456789012'' =
     ([DescribeSnapshots ''eu-west-1'' ''123456789012''], Inr (EmptyRegion ''eu-west-1''))"
proof -
  have h: "ec2_describe_snapshots example_account ''eu-west-1'' ''123456789012'' = Inr []"
    by (simp add: example_account_def)
  from empty_region_short_circuit [OF h] h show ?thesis by simp
qed

text \<open>
  C10. In the result of a scan, the orphaned ids are keys of \<^verbatim>\<open>snapshot_to_ami\<close>,
  whose keys are keys of \<^verbatim>\<open>snapshots\<close>; so the subscript of the listing of the orphans
  finds every orphaned id and the listing raises nothing. When no \<^verbatim>\<open>VolumeSize\<close> of the
  listing is negative, \<^verbatim>\<open>orphaned_size\<close> is at most \<^verbatim>\<open>snapshots_ami_size\<close>, which is
  at most \<^verbatim>\<open>snapshots_size\<close>
\<close>

theorem containment_chain:
  assumes "ec2_describe_snapshots ec2 rgn owner_id = Inr snaps" and "snaps \<noteq> []"
    and "ec2_describe_images ec2 rgn = Inr images"
  shows "\<exists>res. snd (orphaned_ami_snapshots ec2 rgn owner_id) = Inr (RegionResult res) \<and>
     orphaned_snapshots res \<subseteq> fst ` set (snapshot_to_ami res) \<and>
     fst ` set (snapshot_to_ami res) \<subseteq> fst ` set (snapshots res) \<and>
     (\<forall>sid \<in> orphaned_snapshots res. \<exists>s. getitem (snapshots res) sid = Inr s) \<and>
     snd (print_orphan_lines (snapshots res) (sorted_list_of_set (orphaned_snapshots res)))
       = None \<and>
     ((\<forall>s \<in> set snaps. 0 \<le> VolumeSize s) \<longrightarrow>
        orphaned_size res \<le> snapshots_ami_size res \<and>
        snapshots_ami_size res \<le> snapshots_size res)"
proof -
  let ?O = "orphans_of snaps images"
  have sub: "?O \<subseteq> fst ` set (id_index snaps)"
    using orphans_subset [of snaps images] ami_index_keys [of snaps] by (rule subset_trans)
  have look: "\<forall>sid \<in> ?O. \<exists>s. getitem (id_index snaps) sid = Inr s"
  proof
    fix sid
    assume "sid \<in> ?O"
    with sub have "sid \<in> fst ` set (id_index snaps)" by blast
    then obtain s where "map_of (id_index snaps) sid = Some s"
      by (cases "map_of (id_index snaps) sid") (auto simp: map_of_eq_None_iff)
    then show "\<exists>s. getitem (id_index snaps) sid = Inr s"
      by (simp add: getitem_def)
  qed
  have pr: "snd (print_orphan_lines (id_index snaps) (sorted_list_of_set ?O)) = None"
    using sub finite_orphans [of snaps images] by (intro print_orphan_lines_ok) simp
  show ?thesis
    unfolding scan_nonempty [OF assms] region_report_ok
    using orphans_subset [of snaps images] ami_index_keys [of snaps] look pr
      size_chain(1) [of snaps images] size_chain(2) [of snaps]
    by (simp del: set_map)
qed

theorem containment_chain_witness:
  "ec2_describe_snapshots example_account ''us-east-1'' ''123456789012'' = Inr east_snapshots \<and>
   east_snapshots \<noteq> [] \<and>
   ec2_describe_images example_account ''us-east-1'' = Inr example_images \<and>
   list_all (\<lambda>s. 0 \<le> VolumeSize s) east_snapshots \<and>
   (\<exists>res. snd (orphaned_ami_snapshots example_account ''us-east-1'' ''123456789012'')
            = Inr (RegionResult res) \<and>
          orphaned_snapshots res \<subseteq> fst ` set (snapshot_to_ami res) \<and>
          fst ` set (snapshot_to_ami res) \<subseteq> fst ` set (snapshots res) \<and>
          orphaned_size res = 38 \<and> snapshots_ami_size res = 54 \<and> snapshots_size res = 154 \<and>
          orphaned_size res \<le> snapshots_ami_size res \<and>
          snapshots_ami_size res \<le> snapshots_size res)"
proof -
  have nn: "\<forall>s \<in> set east_snapshots. 0 \<le> VolumeSize s"
    by (simp add: east_snapshots_def example_snapshot_def)
  from containment_chain [OF example_hyps]
  obtain res where
    r: "snd (orphaned_ami_snapshots example_account ''us-east-1'' ''123456789012'')
          = Inr (RegionResult res)"
    and c: "orphaned_snapshots res \<subseteq> fst ` set (snapshot_to_ami res)"
      "fst ` set (snapshot_to_ami res) \<subseteq> fst ` set (snapshots res)"
    and le: "(\<forall>s \<in> set east_snapshots. 0 \<le> VolumeSize s) \<longrightarrow>
        orphaned_size res \<le> snapshots_ami_size res \<and>
        snapshots_ami_size res \<le> snapshots_size res"
    by blast
  from r east_scan have "res = east_result"
    by simp
  then have v:
    "orphaned_size res = 38" "snapshots_ami_size res = 54" "snapshots_size res = 154"
    by (simp_all add: east_result_def)
  from nn have nn': "list_all (\<lambda>s. 0 \<le> VolumeSize s) east_snapshots"
    by (simp add: list_all_iff)
  from le nn have "orphaned_size res \<le> snapshots_ami_size res"
    "snapshots_ami_size res \<le> snapshots_size res" by blast+
  with r c v nn' example_hyps show ?thesis by blast
qed

section \<open>The run of main\<close>

lemma main_unfold:
  assumes "sts_get_caller_identity ec2 = Inr owner_id"
  shows "main ec2 cost_d delete print_orphans =
     (case process_results print_orphans (scan_results ec2 owner_id) (scanned ec2 owner_id) of
        (st2, Some e) \<Rightarrow> (st2, Some e)
      | (st2, None) \<Rightarrow>
          (case (if delete then delete_orphans ec2 (results st2) st2 else (st2, None)) of
             (st3, Some e) \<Rightarrow> (st3, Some e)
           | (st3, None) \<Rightarrow> (st3\<lparr>stdout := stdout st3 @ summary_lines cost_d st3\<rparr>, None)))"
  using assms
  by (simp add: main_def scanned_def scan_results_def scan_requests_def Let_def comp_def)

subsection \<open>The loop over the futures\<close>

lemma process_result_requests:
  "process_result po f st = (st', e) \<Longrightarrow> requests st' = requests st"
  by (auto simp: process_result_def Let_def split: sum.splits scan_result.splits if_splits prod.splits)

lemma process_results_requests:
  "process_results po fs st = (st', e) \<Longrightarrow> requests st' = requests st"
proof (induction fs arbitrary: st)
  case Nil
  then show ?case by simp
next
  case (Cons f fs)
  obtain st1 e1 where p: "process_result po f st = (st1, e1)" by (cases "process_result po f st")
  with Cons show ?case
    by (cases e1) (auto dest: process_result_requests)
qed

lemma process_result_totals:
  assumes "process_result po f st = (st', e)"
    and "total_orphaned_size st = sum_list (map orphaned_size (results st))"
    and "total_size st = sum_list (map snapshots_ami_size (results st))"
    and "total_orphaned_snapshots st = sum_list (map (\<lambda>res. card (orphaned_snapshots res)) (results st))"
  shows "total_orphaned_size st' = sum_list (map orphaned_size (results st')) \<and>
         total_size st' = sum_list (map snapshots_ami_size (results st')) \<and>
         total_orphaned_snapshots st' =
           sum_list (map (\<lambda>res. card (orphaned_snapshots res)) (results st'))"
  using assms
  by (auto simp: process_result_def Let_def split: sum.splits scan_result.splits if_splits prod.splits)

lemma process_results_totals:
  assumes "process_results po fs st = (st', e)"
    and "total_orphaned_size st = sum_list (map orphaned_size (results st))"
    and "total_size st = sum_list (map snapshots_ami_size (results st))"
    and "total_orphaned_snapshots st = sum_list (map (\<lambda>res. card (orphaned_snapshots res)) (results st))"
  shows "total_orphaned_size st' = sum_list (map orphaned_size (results st')) \<and>
         total_size st' = sum_list (map snapshots_ami_size (results st')) \<and>
         total_orphaned_snapshots st' =
           sum_list (map (\<lambda>res. card (orphaned_snapshots res)) (results st'))"
  using assms
proof (induction fs arbitrary: st)
  case Nil
  then show ?case by simp
next
  case (Cons f fs)
  obtain st1 e1 where p: "process_result po f st = (st1, e1)" by (cases "process_result po f st")
  note t = process_result_totals [OF p Cons.prems(2-4)]
  show ?case
  proof (cases e1)
    case None
    with p Cons.prems(1) have "process_results po fs st1 = (st', e)" by simp
    from Cons.IH [OF this] t show ?thesis by blast
  next
    case (Some a)
    with p Cons.prems(1) have "st' = st1" by simp
    with t show ?thesis by simp
  qed
qed

lemma process_result_results:
  "process_result po f st = (st', None) \<Longrightarrow>
   results st' = results st @ nonempty_results [f]"
  by (auto simp: process_result_def nonempty_results_def Let_def
      split: sum.splits scan_result.splits if_splits prod.splits)

lemma nonempty_results_Cons:
  "nonempty_results (f # fs) = nonempty_results [f] @ nonempty_results fs"
  by (simp add: nonempty_results_def)

lemma process_results_results:
  "process_results po fs st = (st', None) \<Longrightarrow>
   results st' = results st @ nonempty_results fs"
proof (induction fs arbitrary: st)
  case Nil
  then show ?case by (simp add: nonempty_results_def)
next
  case (Cons f fs)
  obtain st1 e1 where p: "process_result po f st = (st1, e1)" by (cases "process_result po f st")
  with Cons.prems have e1: "e1 = None" and r: "process_results po fs st1 = (st', None)"
    by (cases e1; simp)+
  from Cons.IH [OF r] process_result_results [OF p [unfolded e1]]
  show ?case by (simp add: nonempty_results_Cons [of f fs])
qed

subsection \<open>The deletions\<close>

lemma attempt_append:
  "attempt ec2 (xs @ ys) =
     (case attempt ec2 xs of
        (s, Some e) \<Rightarrow> (s, Some e)
      | (s, None) \<Rightarrow> (case attempt ec2 ys of (s', e) \<Rightarrow> (s @ s', e)))"
  by (induction xs) (auto split: option.splits prod.splits)

lemma attempt_all_succeed:
  "\<forall>c \<in> set plan. delete_fails ec2 c = None \<Longrightarrow> attempt ec2 plan = (plan, None)"
  by (induction plan) auto

lemma attempt_first_failure:
  assumes "\<forall>c' \<in> set pre. delete_fails ec2 c' = None" and "delete_fails ec2 c = Some e"
  shows "attempt ec2 (pre @ c # post) = (pre @ [c], Some e)"
  using assms by (simp add: attempt_append attempt_all_succeed)

lemma attempt_None:
  "attempt ec2 plan = (sent, None) \<Longrightarrow>
   sent = plan \<and> (\<forall>c \<in> set plan. delete_fails ec2 c = None)"
  by (induction plan arbitrary: sent) (auto split: option.splits prod.splits)

lemma delete_snapshots_attempt:
  "delete_snapshots ec2 rgn ids st = (st', err) \<Longrightarrow>
   requests st' = requests st @ fst (attempt ec2 (map (DeleteSnapshot rgn) ids)) \<and>
   err = snd (attempt ec2 (map (DeleteSnapshot rgn) ids)) \<and>
   results st' = results st \<and> total_size st' = total_size st \<and>
   total_orphaned_size st' = total_orphaned_size st \<and>
   total_orphaned_snapshots st' = total_orphaned_snapshots st"
proof (induction ids arbitrary: st)
  case Nil
  then show ?case by simp
next
  case (Cons i ids)
  let ?st1 = "st\<lparr>stdout := stdout st @ [''deleting '' @ i],
                  requests := requests st @ [DeleteSnapshot rgn i]\<rparr>"
  show ?case
  proof (cases "ec2_delete_snapshot ec2 rgn i")
    case None
    with Cons.prems have "delete_snapshots ec2 rgn ids ?st1 = (st', err)"
      by (simp add: Let_def)
    from Cons.IH [OF this] None show ?thesis
      by (simp add: delete_fails_def split: prod.splits)
  next
    case (Some e)
    with Cons.prems have "st' = ?st1" "err = Some e"
      by (simp_all add: Let_def)
    then show ?thesis
      by (simp add: delete_fails_def Some)
  qed
qed

lemma delete_snapshots_stdout:
  "delete_snapshots ec2 rgn ids st = (st', None) \<Longrightarrow>
   stdout st' = stdout st @ map (\<lambda>snap_id. ''deleting '' @ snap_id) ids"
proof (induction ids arbitrary: st)
  case Nil
  then show ?case by simp
next
  case (Cons i ids)
  let ?st1 = "st\<lparr>stdout := stdout st @ [''deleting '' @ i],
                  requests := requests st @ [DeleteSnapshot rgn i]\<rparr>"
  from Cons.prems have "delete_snapshots ec2 rgn ids ?st1 = (st', None)"
    by (cases "ec2_delete_snapshot ec2 rgn i") (simp_all add: Let_def)
  from Cons.IH [OF this] show ?case by simp
qed

lemma planned_deletes_Cons:
  "planned_deletes (res # rest) =
     map (DeleteSnapshot (region res)) (sorted_list_of_set (orphaned_snapshots res))
       @ planned_deletes rest"
  by (simp add: planned_deletes_def)

lemma delete_orphans_attempt:
  "delete_orphans ec2 ress st = (st', err) \<Longrightarrow>
   requests st' = requests st @ fst (attempt ec2 (planned_deletes ress)) \<and>
   err = snd (attempt ec2 (planned_deletes ress)) \<and>
   results st' = results st \<and> total_size st' = total_size st \<and>
   total_orphaned_size st' = total_orphaned_size st \<and>
   total_orphaned_snapshots st' = total_orphaned_snapshots st"
proof (induction ress arbitrary: st)
  case Nil
  then show ?case by (simp add: planned_deletes_def)
next
  case (Cons res rest)
  let ?ids = "sorted_list_of_set (orphaned_snapshots res)"
  show ?case
  proof (cases "orphaned_snapshots res = {}")
    case True
    with Cons.prems have "delete_orphans ec2 rest st = (st', err)" by simp
    from Cons.IH [OF this] True show ?thesis
      by (simp add: planned_deletes_Cons)
  next
    case False
    let ?st1 = "st\<lparr>stdout := stdout st @
                      [''deleting '' @ fmt_d (int (card (orphaned_snapshots res)))
                         @ '' snapshots from '' @ region res]\<rparr>"
    obtain st2 e2 where d: "delete_snapshots ec2 (region res) ?ids ?st1 = (st2, e2)"
      by (cases "delete_snapshots ec2 (region res) ?ids ?st1")
    note a = delete_snapshots_attempt [OF d]
    show ?thesis
    proof (cases e2)
      case None
      with d False Cons.prems have "delete_orphans ec2 rest st2 = (st', err)"
        by (simp add: Let_def)
      note b = Cons.IH [OF this]
      obtain s1 where s1: "attempt ec2 (map (DeleteSnapshot (region res)) ?ids) = (s1, None)"
        using a None by (cases "attempt ec2 (map (DeleteSnapshot (region res)) ?ids)") simp
      obtain s2 e' where s2: "attempt ec2 (planned_deletes rest) = (s2, e')"
        by (cases "attempt ec2 (planned_deletes rest)")
      from a b s1 s2 show ?thesis
        by (simp add: planned_deletes_Cons attempt_append)
    next
      case (Some e)
      with d False Cons.prems have "st' = st2" "err = Some e"
        by (simp_all add: Let_def)
      moreover obtain s1 where "attempt ec2 (map (DeleteSnapshot (region res)) ?ids) = (s1, Some e)"
        using a Some by (cases "attempt ec2 (map (DeleteSnapshot (region res)) ?ids)") simp
      ultimately show ?thesis
        using a by (simp add: planned_deletes_Cons attempt_append)
    qed
  qed
qed

lemma delete_lines_Cons:
  "delete_lines (res # rest) =
     (if orphaned_snapshots res = {} then []
      else (''deleting '' @ fmt_d (int (card (orphaned_snapshots res)))
                @ '' snapshots from '' @ region res)
             # map (\<lambda>snap_id. ''deleting '' @ snap_id)
                 (sorted_list_of_set (orphaned_snapshots res))) @ delete_lines rest"
  by (simp add: delete_lines_def)

lemma delete_orphans_stdout:
  "delete_orphans ec2 ress st = (st', None) \<Longrightarrow> stdout st' = stdout st @ delete_lines ress"
proof (induction ress arbitrary: st)
  case Nil
  then show ?case by (simp add: delete_lines_def)
next
  case (Cons res rest)
  let ?ids = "sorted_list_of_set (orphaned_snapshots res)"
  show ?case
  proof (cases "orphaned_snapshots res = {}")
    case True
    with Cons.prems have "delete_orphans ec2 rest st = (st', None)" by simp
    from Cons.IH [OF this] True show ?thesis
      by (simp add: delete_lines_Cons)
  next
    case False
    let ?st1 = "st\<lparr>stdout := stdout st @
                      [''deleting '' @ fmt_d (int (card (orphaned_snapshots res)))
                         @ '' snapshots from '' @ region res]\<rparr>"
    obtain st2 e2 where d: "delete_snapshots ec2 (region res) ?ids ?st1 = (st2, e2)"
      by (cases "delete_snapshots ec2 (region res) ?ids ?st1")
    with False Cons.prems have e2: "e2 = None" and r: "delete_orphans ec2 rest st2 = (st', None)"
      by (cases e2; simp add: Let_def)+
    from Cons.IH [OF r] delete_snapshots_stdout [OF d [unfolded e2]] False
    show ?thesis
      by (simp add: delete_lines_Cons)
  qed
qed

lemma scan_finite_orphans:
  "snd (orphaned_ami_snapshots ec2 rgn owner_id) = Inr (RegionResult res) \<Longrightarrow>
   finite (orphaned_snapshots res)"
  by (auto simp: orphaned_ami_snapshots_def region_report_ok finite_orphans
      split: sum.splits if_splits)

lemma nonempty_results_finite:
  "res \<in> set (nonempty_results (scan_results ec2 owner_id)) \<Longrightarrow>
   finite (orphaned_snapshots res)"
  by (auto simp: nonempty_results_def scan_results_def
      split: sum.splits scan_result.splits intro: scan_finite_orphans [OF sym])

lemma scanned_totals:
  "total_orphaned_size (scanned ec2 owner_id) =
     sum_list (map orphaned_size (results (scanned ec2 owner_id)))"
  "total_size (scanned ec2 owner_id) =
     sum_list (map snapshots_ami_size (results (scanned ec2 owner_id)))"
  "total_orphaned_snapshots (scanned ec2 owner_id) =
     sum_list (map (\<lambda>res. card (orphaned_snapshots res)) (results (scanned ec2 owner_id)))"
  by (simp_all add: scanned_def)

lemma main_finished:
  assumes "sts_get_caller_identity ec2 = Inr owner_id"
    and "main ec2 cost_d delete print_orphans = (st, None)"
  obtains st2 st3 where
    "process_results print_orphans (scan_results ec2 owner_id) (scanned ec2 owner_id) = (st2, None)"
    and "(if delete then delete_orphans ec2 (results st2) st2 else (st2, None)) = (st3, None)"
    and "st = st3\<lparr>stdout := stdout st3 @ summary_lines cost_d st3\<rparr>"
proof -
  obtain st2 e2 where p:
    "process_results print_orphans (scan_results ec2 owner_id) (scanned ec2 owner_id) = (st2, e2)"
    by (cases "process_results print_orphans (scan_results ec2 owner_id) (scanned ec2 owner_id)")
  obtain st3 e3 where d:
    "(if delete then delete_orphans ec2 (results st2) st2 else (st2, None)) = (st3, e3)"
    by (cases "if delete then delete_orphans ec2 (results st2) st2 else (st2, None)")
  from assms(2) p have e2: "e2 = None"
    unfolding main_unfold [OF assms(1)] by (cases e2) auto
  from assms(2) p d e2 have e3: "e3 = None"
    unfolding main_unfold [OF assms(1)] by (cases e3) auto
  from assms(2) p d e2 e3 have "st = st3\<lparr>stdout := stdout st3 @ summary_lines cost_d st3\<rparr>"
    unfolding main_unfold [OF assms(1)] by auto
  with p d e2 e3 that show thesis by blast
qed

subsection \<open>Runs of the example account\<close>

lemma example_identity: "sts_get_caller_identity example_account = Inr ''123456789012''"
  by (simp add: example_account_def)

lemma refusing_identity: "sts_get_caller_identity refusing_account = Inr ''123456789012''"
  by (simp add: refusing_account_def example_account_def)

lemma example_report_finishes: "snd (main example_account example_cost False False) = None"
  by code_simp

lemma example_sizes:
  "map orphaned_size (nonempty_results (scan_results example_account ''123456789012''))
     = [38, 0, 5]"
  by code_simp

lemma fmt_d_43: "fmt_d 43 = ''43''"
  by code_simp

lemma example_delete_finishes: "snd (main example_account example_cost True True) = None"
  by code_simp

lemma example_requests:
  "GetCallerIdentity # scan_requests example_account ''123456789012''
     @ planned_deletes (nonempty_results (scan_results example_account ''123456789012''))
   = [GetCallerIdentity,
      DescribeSnapshots ''eu-west-1'' ''123456789012'',
      DescribeSnapshots ''us-east-1'' ''123456789012'', DescribeImages ''us-east-1'',
      DescribeSnapshots ''us-west-1'' ''123456789012'', DescribeImages ''us-west-1'',
      DescribeSnapshots ''us-west-2'' ''123456789012'', DescribeImages ''us-west-2'',
      DeleteSnapshot ''us-east-1'' ''snap-0a'', DeleteSnapshot ''us-east-1'' ''snap-0b'',
      DeleteSnapshot ''us-west-2'' ''snap-2a'']"
  by code_simp

lemma refusing_report_finishes:
  "snd (process_results False (scan_results refusing_account ''123456789012'')
          (scanned refusing_account ''123456789012'')) = None"
  by code_simp

lemma refusing_plan:
  "planned_deletes (results (fst (process_results False
       (scan_results refusing_account ''123456789012'')
       (scanned refusing_account ''123456789012''))))
   = [DeleteSnapshot ''us-east-1'' ''snap-0a''] @
     DeleteSnapshot ''us-east-1'' ''snap-0b'' # [DeleteSnapshot ''us-west-2'' ''snap-2a'']"
  by code_simp

lemma refusing_scan_requests:
  "GetCallerIdentity # scan_requests refusing_account ''123456789012''
   = [GetCallerIdentity,
      DescribeSnapshots ''eu-west-1'' ''123456789012'',
      DescribeSnapshots ''us-east-1'' ''123456789012'', DescribeImages ''us-east-1'',
      DescribeSnapshots ''us-west-1'' ''123456789012'', DescribeImages ''us-west-1'',
      DescribeSnapshots ''us-west-2'' ''123456789012'', DescribeImages ''us-west-2'']"
  by code_simp

section \<open>Properties of a run\<close>

text \<open>
  C5. When a run reaches its end, \<^verbatim>\<open>results\<close> holds the results of the regions that
  have snapshots, in the order of the regions, and \<^verbatim>\<open>total_orphaned_size\<close> is the sum of
  their \<^verbatim>\<open>orphaned_size\<close> (so are the two other totals for their fields); the last line
  but one of the output prints that sum as the total orphaned snapshot storage
\<close>

theorem total_orphaned_is_sum:
  assumes "sts_get_caller_identity ec2 = Inr owner_id"
    and "main ec2 cost_d delete print_orphans = (st, None)"
  shows "results st = nonempty_results (scan_results ec2 owner_id) \<and>
     total_orphaned_size st = sum_list (map orphaned_size (results st)) \<and>
     total_size st = sum_list (map snapshots_ami_size (results st)) \<and>
     total_orphaned_snapshots st =
       sum_list (map (\<lambda>res. card (orphaned_snapshots res)) (results st)) \<and>
     stdout st ! (length (stdout st) - 2) =
       fmt_d (sum_list (map orphaned_size (results st)))
         @ CHR 0x09 # ''GB Total orphaned snapshot storage''"
proof -
  from assms obtain st2 st3 where
    p: "process_results print_orphans (scan_results ec2 owner_id) (scanned ec2 owner_id)
          = (st2, None)"
    and d: "(if delete then delete_orphans ec2 (results st2) st2 else (st2, None)) = (st3, None)"
    and st: "st = st3\<lparr>stdout := stdout st3 @ summary_lines cost_d st3\<rparr>"
    by (rule main_finished)
  have r2: "results st2 = nonempty_results (scan_results ec2 owner_id)"
    using process_results_results [OF p] by (simp add: scanned_def)
  note t2 = process_results_totals [OF p scanned_totals]
  have same: "results st3 = results st2 \<and> total_size st3 = total_size st2 \<and>
      total_orphaned_size st3 = total_orphaned_size st2 \<and>
      total_orphaned_snapshots st3 = total_orphaned_snapshots st2"
  proof (cases delete)
    case True
    with d have "delete_orphans ec2 (results st2) st2 = (st3, None)" by simp
    from delete_orphans_attempt [OF this] show ?thesis by simp
  next
    case False
    with d show ?thesis by simp
  qed
  have line: "stdout st ! (length (stdout st) - 2) =
      fmt_d (total_orphaned_size st3) @ CHR 0x09 # ''GB Total orphaned snapshot storage''"
    by (simp add: st summary_lines_def nth_append)
  from r2 t2 same line show ?thesis
    by (simp add: st)
qed

theorem total_orphaned_is_sum_witness:
  "sts_get_caller_identity example_account = Inr ''123456789012'' \<and>
   snd (main example_account example_cost False False) = None \<and>
   map orphaned_size (results (fst (main example_account example_cost False False)))
     = [38, 0, 5] \<and>
   total_orphaned_size (fst (main example_account example_cost False False)) = 43 \<and>
   stdout (fst (main example_account example_cost False False))
     ! (length (stdout (fst (main example_account example_cost False False))) - 2)
     = ''43'' @ CHR 0x09 # ''GB Total orphaned snapshot storage''"
proof -
  let ?st = "fst (main example_account example_cost False False)"
  have m: "main example_account example_cost False False = (?st, None)"
    using example_report_finishes by (simp add: prod_eq_iff)
  note t = total_orphaned_is_sum [OF example_identity m]
  from t have r: "map orphaned_size (results ?st) = [38, 0, 5]"
    by (simp only: example_sizes)
  from t r have "total_orphaned_size ?st = 43" by simp
  moreover from t r have "stdout ?st ! (length (stdout ?st) - 2)
      = ''43'' @ CHR 0x09 # ''GB Total orphaned snapshot storage''"
    by (simp add: fmt_d_43)
  ultimately show ?thesis
    using example_identity example_report_finishes r by simp
qed

text \<open>
  C7. When \<^verbatim>\<open>--delete\<close> is given and the run reaches its end, the requests after those
  of the scans are the planned deletions of \<^verbatim>\<open>results\<close>: region by region in the order
  of \<^verbatim>\<open>results\<close>, one request for each orphaned id of the region, in ascending order of
  the ids, each id once. A region without orphaned snapshots gets no request and no
  line of output
\<close>

theorem deletes_in_result_order:
  assumes "sts_get_caller_identity ec2 = Inr owner_id"
    and "main ec2 cost_d True print_orphans = (st, None)"
  shows "\<exists>st2.
     process_results print_orphans (scan_results ec2 owner_id) (scanned ec2 owner_id)
       = (st2, None) \<and>
     results st = nonempty_results (scan_results ec2 owner_id) \<and>
     requests st =
       GetCallerIdentity # scan_requests ec2 owner_id @ planned_deletes (results st) \<and>
     stdout st = stdout st2 @ delete_lines (results st) @ summary_lines cost_d st \<and>
     (\<forall>res \<in> set (results st).
        set (sorted_list_of_set (orphaned_snapshots res)) = orphaned_snapshots res \<and>
        distinct (sorted_list_of_set (orphaned_snapshots res)) \<and>
        sorted (sorted_list_of_set (orphaned_snapshots res)))"
proof -
  from assms obtain st2 st3 where
    p: "process_results print_orphans (scan_results ec2 owner_id) (scanned ec2 owner_id)
          = (st2, None)"
    and d: "(if True then delete_orphans ec2 (results st2) st2 else (st2, None)) = (st3, None)"
    and st: "st = st3\<lparr>stdout := stdout st3 @ summary_lines cost_d st3\<rparr>"
    by (rule main_finished)
  from d have d': "delete_orphans ec2 (results st2) st2 = (st3, None)" by simp
  have r2: "results st2 = nonempty_results (scan_results ec2 owner_id)"
    using process_results_results [OF p] by (simp add: scanned_def)
  have q2: "requests st2 = GetCallerIdentity # scan_requests ec2 owner_id"
    using process_results_requests [OF p] by (simp add: scanned_def)
  note a = delete_orphans_attempt [OF d']
  obtain sent where s: "attempt ec2 (planned_deletes (results st2)) = (sent, None)"
    using a by (cases "attempt ec2 (planned_deletes (results st2))") simp
  from attempt_None [OF s] have sent: "sent = planned_deletes (results st2)" by simp
  have q: "requests st =
      GetCallerIdentity # scan_requests ec2 owner_id @ planned_deletes (results st)"
    using a s sent q2 by (simp add: st)
  have out: "stdout st = stdout st2 @ delete_lines (results st) @ summary_lines cost_d st"
    using delete_orphans_stdout [OF d'] a by (simp add: st summary_lines_def)
  have fin: "\<forall>res \<in> set (results st).
        set (sorted_list_of_set (orphaned_snapshots res)) = orphaned_snapshots res \<and>
        distinct (sorted_list_of_set (orphaned_snapshots res)) \<and>
        sorted (sorted_list_of_set (orphaned_snapshots res))"
    using a r2 nonempty_results_finite [of _ ec2 owner_id] by (simp add: st)
  from p r2 a q out fin show ?thesis
    by (auto simp: st)
qed

theorem deletes_in_result_order_witness:
  "sts_get_caller_identity example_account = Inr ''123456789012'' \<and>
   snd (main example_account example_cost True True) = None \<and>
   requests (fst (main example_account example_cost True True))
   = [GetCallerIdentity,
      DescribeSnapshots ''eu-west-1'' ''123456789012'',
      DescribeSnapshots ''us-east-1'' ''123456789012'', DescribeImages ''us-east-1'',
      DescribeSnapshots ''us-west-1'' ''123456789012'', DescribeImages ''us-west-1'',
      DescribeSnapshots ''us-west-2'' ''123456789012'', DescribeImages ''us-west-2'',
      DeleteSnapshot ''us-east-1'' ''snap-0a'', DeleteSnapshot ''us-east-1'' ''snap-0b'',
      DeleteSnapshot ''us-west-2'' ''snap-2a'']"
proof -
  let ?st = "fst (main example_account example_cost True True)"
  have m: "main example_account example_cost True True = (?st, None)"
    using example_delete_finishes by (simp add: prod_eq_iff)
  from deletes_in_result_order [OF example_identity m]
  have "requests ?st = GetCallerIdentity # scan_requests example_account ''123456789012''
     @ planned_deletes (nonempty_results (scan_results example_account ''123456789012''))"
    by auto
  with example_identity example_delete_finishes show ?thesis
    by (simp only: example_requests)
qed

text \<open>
  C8. When the report is done and a planned deletion is refused after all the planned
  deletions before it succeeded, \<^verbatim>\<open>main\<close> raises the exception of that request as it
  is, and the requests it has sent end with the refused one: the request is sent once,
  and none of the planned deletions after it is sent, in this region or a later one
\<close>

theorem delete_failure_aborts:
  assumes "sts_get_caller_identity ec2 = Inr owner_id"
    and "process_results print_orphans (scan_results ec2 owner_id) (scanned ec2 owner_id)
           = (st2, None)"
    and "planned_deletes (results st2) = pre @ DeleteSnapshot rgn snap_id # post"
    and "\<forall>c \<in> set pre. delete_fails ec2 c = None"
    and "ec2_delete_snapshot ec2 rgn snap_id = Some e"
  shows "\<exists>st. main ec2 cost_d True print_orphans = (st, Some e) \<and>
     requests st =
       GetCallerIdentity # scan_requests ec2 owner_id @ pre @ [DeleteSnapshot rgn snap_id] \<and>
     results st = results st2"
proof -
  obtain st3 e3 where d: "delete_orphans ec2 (results st2) st2 = (st3, e3)"
    by (cases "delete_orphans ec2 (results st2) st2")
  have f: "delete_fails ec2 (DeleteSnapshot rgn snap_id) = Some e"
    using assms(5) by (simp add: delete_fails_def)
  have at: "attempt ec2 (planned_deletes (results st2)) = (pre @ [DeleteSnapshot rgn snap_id], Some e)"
    unfolding assms(3) by (rule attempt_first_failure [OF assms(4) f])
  note a = delete_orphans_attempt [OF d]
  from a at have e3: "e3 = Some e"
    and q3: "requests st3 = requests st2 @ pre @ [DeleteSnapshot rgn snap_id]"
    and r3: "results st3 = results st2"
    by simp_all
  have q2: "requests st2 = GetCallerIdentity # scan_requests ec2 owner_id"
    using process_results_requests [OF assms(2)] by (simp add: scanned_def)
  have "main ec2 cost_d True print_orphans = (st3, Some e)"
    unfolding main_unfold [OF assms(1)] using assms(2) d e3 by simp
  with q3 q2 r3 show ?thesis by simp
qed

theorem delete_failure_aborts_witness:
  "sts_get_caller_identity refusing_account = Inr ''123456789012'' \<and>
   snd (process_results False (scan_results refusing_account ''123456789012'')
          (scanned refusing_account ''123456789012'')) = None \<and>
   planned_deletes (results (fst (process_results False
       (scan_results refusing_account ''123456789012'')
       (scanned refusing_account ''123456789012''))))
     = [DeleteSnapshot ''us-east-1'' ''snap-0a''] @
       DeleteSnapshot ''us-east-1'' ''snap-0b'' # [DeleteSnapshot ''us-west-2'' ''snap-2a''] \<and>
   delete_fails refusing_account (DeleteSnapshot ''us-east-1'' ''snap-0a'') = None \<and>
   ec2_delete_snapshot refusing_account ''us-east-1'' ''snap-0b''
     = Some (ApiError ''RequestLimitExceeded'') \<and>
   (\<exists>st. main refusing_account example_cost True False
            = (st, Some (ApiError ''RequestLimitExceeded'')) \<and>
         requests st =
           [GetCallerIdentity,
            DescribeSnapshots ''eu-west-1'' ''123456789012'',
            DescribeSnapshots ''us-east-1'' ''123456789012'', DescribeImages ''us-east-1'',
            DescribeSnapshots ''us-west-1'' ''123456789012'', DescribeImages ''us-west-1'',
            DescribeSnapshots ''us-west-2'' ''123456789012'', DescribeImages ''us-west-2'',
            DeleteSnapshot ''us-east-1'' ''snap-0a'', DeleteSnapshot ''us-east-1'' ''snap-0b''])"
proof -
  let ?p = "process_results False (scan_results refusing_account ''123456789012'')
              (scanned refusing_account ''123456789012'')"
  have p: "?p = (fst ?p, None)"
    using refusing_report_finishes by (simp add: prod_eq_iff)
  have ok: "delete_fails refusing_account (DeleteSnapshot ''us-east-1'' ''snap-0a'') = None"
    by (simp add: delete_fails_def refusing_account_def)
  then have pre: "\<forall>c \<in> set [DeleteSnapshot ''us-east-1'' ''snap-0a''].
      delete_fails refusing_account c = None"
    by simp
  have no: "ec2_delete_snapshot refusing_account ''us-east-1'' ''snap-0b''
      = Some (ApiError ''RequestLimitExceeded'')"
    by (simp add: refusing_account_def)
  from delete_failure_aborts [OF refusing_identity p refusing_plan pre no, of example_cost]
  obtain st where
    "main refusing_account example_cost True False = (st, Some (ApiError ''RequestLimitExceeded''))"
    and "requests st = GetCallerIdentity # scan_requests refusing_account ''123456789012''
           @ [DeleteSnapshot ''us-east-1'' ''snap-0a''] @ [DeleteSnapshot ''us-east-1'' ''snap-0b'']"
    by blast
  then have "\<exists>st. main refusing_account example_cost True False
            = (st, Some (ApiError ''RequestLimitExceeded'')) \<and>
         requests st =
           [GetCallerIdentity,
            DescribeSnapshots ''eu-west-1'' ''123456789012'',
            DescribeSnapshots ''us-east-1'' ''123456789012'', DescribeImages ''us-east-1'',
            DescribeSnapshots ''us-west-1'' ''123456789012'', DescribeImages ''us-west-1'',
            DescribeSnapshots ''us-west-2'' ''123456789012'', DescribeImages ''us-west-2'',
            DeleteSnapshot ''us-east-1'' ''snap-0a'', DeleteSnapshot ''us-east-1'' ''snap-0b'']"
    using refusing_scan_requests by simp
  with refusing_identity refusing_report_finishes refusing_plan ok no show ?thesis
    by blast
qed

end
